theory Spec2Isabelle
  imports Main "HOL-Library.Word"
begin

unbundle bit_operations_syntax

section \<open>Type tags and operator tags (namespace engine::mpi)\<close>

text \<open>
  The wire-type enumeration named by the eight specialisations of \<open>GetType\<close>
  (rabit-inl.h, lines 18-51) and the operator enumeration named by the \<open>kType\<close>
  members of the operator structs (lines 57, 64, 71, 78).
\<close>

datatype DataType = kChar | kUChar | kInt | kUInt | kLong | kULong | kFloat | kDouble

datatype OpType = kMax | kMin | kSum | kBitwiseOR

text \<open>The C++ scalar types for which \<open>GetType\<close> is specialised.\<close>

datatype ctype = T_char | T_uchar | T_int | T_unsigned | T_long | T_ulong | T_float | T_double

fun GetType :: "ctype \<Rightarrow> DataType" where
  "GetType T_char = kChar"
| "GetType T_uchar = kUChar"
| "GetType T_int = kInt"
| "GetType T_unsigned = kUInt"
| "GetType T_long = kLong"
| "GetType T_ulong = kULong"
| "GetType T_float = kFloat"
| "GetType T_double = kDouble"

text \<open>\<open>sizeof(DType)\<close> on an LP64 platform (x86-64 Linux).\<close>

fun sizeof :: "ctype \<Rightarrow> nat" where
  "sizeof T_char = 1"
| "sizeof T_uchar = 1"
| "sizeof T_int = 4"
| "sizeof T_unsigned = 4"
| "sizeof T_long = 8"
| "sizeof T_ulong = 8"
| "sizeof T_float = 4"
| "sizeof T_double = 8"

section \<open>The built-in operators of the scalar types\<close>

text \<open>
  A value of an integer type of \<open>n\<close> bits is an \<open>n word\<close>. The signed types
  (\<open>char\<close>, \<open>int\<close>, \<open>long\<close>) compare by their two's complement value, the unsigned
  ones (\<open>unsigned char\<close>, \<open>unsigned\<close>, \<open>unsigned long\<close>) by their unsigned value.
  Addition is the addition of words, which wraps around (for the signed types the
  wrap-around of the hardware is taken where C++ leaves overflow undefined).
\<close>

definition signed_lt :: "'n::len word \<Rightarrow> 'n word \<Rightarrow> bool" where
  "signed_lt a b = (sint a < sint b)"

definition signed_gt :: "'n::len word \<Rightarrow> 'n word \<Rightarrow> bool" where
  "signed_gt a b = (sint a > sint b)"

definition unsigned_lt :: "'n::len word \<Rightarrow> 'n word \<Rightarrow> bool" where
  "unsigned_lt a b = (a < b)"

definition unsigned_gt :: "'n::len word \<Rightarrow> 'n word \<Rightarrow> bool" where
  "unsigned_gt a b = (a > b)"

definition signed_le :: "'n::len word \<Rightarrow> 'n word \<Rightarrow> bool" where
  "signed_le a b = (sint a \<le> sint b)"

definition unsigned_le :: "'n::len word \<Rightarrow> 'n word \<Rightarrow> bool" where
  "unsigned_le a b = (a \<le> b)"

definition int_plus :: "'n::len word \<Rightarrow> 'n word \<Rightarrow> 'n word" where
  "int_plus a b = a + b"

definition int_or :: "'n::len word \<Rightarrow> 'n word \<Rightarrow> 'n word" where
  "int_or a b = a OR b"

text \<open>
  A \<open>float\<close> or \<open>double\<close> is its IEEE 754 bit pattern: a sign bit (the top bit)
  and a magnitude (the other bits: exponent and fraction). \<open>pinf\<close> is the pattern of
  plus infinity; a pattern whose magnitude is above it is a NaN. The comparisons
  \<open><\<close>, \<open>>\<close> and \<open>==\<close> of C++ are false as soon as one operand is a NaN, and
  otherwise compare the signed magnitudes (so that minus zero equals plus zero).
\<close>

definition fp_mag :: "'n::len word \<Rightarrow> 'n word" where
  "fp_mag x = take_bit (LENGTH('n) - 1) x"

definition fp_neg :: "'n::len word \<Rightarrow> bool" where
  "fp_neg x = bit x (LENGTH('n) - 1)"

definition fp_nan :: "'n::len word \<Rightarrow> 'n word \<Rightarrow> bool" where
  "fp_nan pinf x = (pinf < fp_mag x)"

definition fp_key :: "'n::len word \<Rightarrow> int" where
  "fp_key x = (if fp_neg x then - uint (fp_mag x) else uint (fp_mag x))"

definition fp_lt :: "'n::len word \<Rightarrow> 'n word \<Rightarrow> 'n word \<Rightarrow> bool" where
  "fp_lt pinf a b = (\<not> fp_nan pinf a \<and> \<not> fp_nan pinf b \<and> fp_key a < fp_key b)"

definition fp_gt :: "'n::len word \<Rightarrow> 'n word \<Rightarrow> 'n word \<Rightarrow> bool" where
  "fp_gt pinf a b = (\<not> fp_nan pinf a \<and> \<not> fp_nan pinf b \<and> fp_key a > fp_key b)"

definition fp_eq :: "'n::len word \<Rightarrow> 'n word \<Rightarrow> 'n word \<Rightarrow> bool" where
  "fp_eq pinf a b = (\<not> fp_nan pinf a \<and> \<not> fp_nan pinf b \<and> fp_key a = fp_key b)"

definition fp_le :: "'n::len word \<Rightarrow> 'n word \<Rightarrow> 'n word \<Rightarrow> bool" where
  "fp_le pinf a b = (\<not> fp_nan pinf a \<and> \<not> fp_nan pinf b \<and> fp_key a \<le> fp_key b)"

text \<open>
  Addition, as \<open>dst += src\<close> computes it on x86-64 (IEEE 754, round to nearest, ties
  to even, every intermediate result stored in the format). \<open>p\<close> is the number of
  fraction bits. A finite pattern with exponent field \<open>e\<close> and fraction \<open>f\<close> stands
  for \<open>f\<close> units when \<open>e = 0\<close> and for \<open>(2 ^ p + f) * 2 ^ (e - 1)\<close> units
  otherwise, the unit being the least positive value of the format. The sum of two
  finite values is the exact sum of their units, rounded: a magnitude \<open>M\<close> below
  \<open>2 ^ (p + 1)\<close> units is its own pattern; a larger one keeps its \<open>p + 1\<close> leading
  bits \<open>q\<close>, rounded up when the \<open>k\<close> bits cut off are more than half, or are half
  with \<open>q\<close> odd, and has the pattern \<open>k * 2 ^ p + q\<close>; a pattern beyond infinity is
  infinity. An exact sum of zero is plus zero, unless both operands are minus zero. A
  NaN operand comes back with its quiet bit set (the first one if both are NaN);
  infinity plus minus infinity is the default NaN.
\<close>

function bitlen :: "int \<Rightarrow> nat" where
  "bitlen n = (if n \<le> 0 then 0 else Suc (bitlen (n div 2)))"
  by pat_completeness auto
termination
  by (relation "measure nat") auto

declare bitlen.simps [simp del]

definition fp_units :: "nat \<Rightarrow> int \<Rightarrow> int" where
  "fp_units p m =
     (let e = m div 2 ^ p; f = m mod 2 ^ p
      in if e = 0 then f else (2 ^ p + f) * 2 ^ nat (e - 1))"

definition fp_scaled_mag :: "nat \<Rightarrow> 'n::len word \<Rightarrow> int" where
  "fp_scaled_mag p x = fp_units p (uint (fp_mag x))"

definition fp_scaled :: "nat \<Rightarrow> 'n::len word \<Rightarrow> int" where
  "fp_scaled p x = (if fp_neg x then - fp_scaled_mag p x else fp_scaled_mag p x)"

definition fp_round :: "nat \<Rightarrow> int \<Rightarrow> int" where
  "fp_round p M =
     (if M < 2 ^ (p + 1) then M
      else (let k = bitlen M - (p + 1); q = M div 2 ^ k; r = M mod 2 ^ k;
                q1 = (if 2 ^ k < 2 * r \<or> (2 * r = 2 ^ k \<and> odd q) then q + 1 else q)
            in int k * 2 ^ p + q1))"

definition fp_pack :: "bool \<Rightarrow> int \<Rightarrow> 'n::len word" where
  "fp_pack neg m =
     (if neg then push_bit (LENGTH('n) - 1) 1 OR word_of_int m else word_of_int m)"

definition fp_quiet :: "nat \<Rightarrow> 'n::len word \<Rightarrow> 'n word" where
  "fp_quiet p x = x OR push_bit (p - 1) 1"

definition fp_add :: "nat \<Rightarrow> 'n::len word \<Rightarrow> 'n word \<Rightarrow> 'n word \<Rightarrow> 'n word" where
  "fp_add p pinf a b =
     (if fp_nan pinf a then fp_quiet p a
      else if fp_nan pinf b then fp_quiet p b
      else if fp_mag a = pinf \<and> fp_mag b = pinf then
        (if fp_neg a = fp_neg b then fp_pack (fp_neg a) (uint pinf)
         else fp_quiet p (fp_pack True (uint pinf)))
      else if fp_mag a = pinf then fp_pack (fp_neg a) (uint pinf)
      else if fp_mag b = pinf then fp_pack (fp_neg b) (uint pinf)
      else (let s = fp_scaled p a + fp_scaled p b
            in if s = 0 then fp_pack (fp_neg a \<and> fp_neg b) 0
               else fp_pack (s < 0) (min (fp_round p \<bar>s\<bar>) (uint pinf))))"

definition float_inf :: "32 word" where
  "float_inf = 0x7F800000"

definition double_inf :: "64 word" where
  "double_inf = 0x7FF0000000000000"

definition float_lt :: "32 word \<Rightarrow> 32 word \<Rightarrow> bool" where
  "float_lt = fp_lt float_inf"

definition float_gt :: "32 word \<Rightarrow> 32 word \<Rightarrow> bool" where
  "float_gt = fp_gt float_inf"

definition float_eq :: "32 word \<Rightarrow> 32 word \<Rightarrow> bool" where
  "float_eq = fp_eq float_inf"

definition double_lt :: "64 word \<Rightarrow> 64 word \<Rightarrow> bool" where
  "double_lt = fp_lt double_inf"

definition double_gt :: "64 word \<Rightarrow> 64 word \<Rightarrow> bool" where
  "double_gt = fp_gt double_inf"

definition double_eq :: "64 word \<Rightarrow> 64 word \<Rightarrow> bool" where
  "double_eq = fp_eq double_inf"

definition float_le :: "32 word \<Rightarrow> 32 word \<Rightarrow> bool" where
  "float_le = fp_le float_inf"

definition double_le :: "64 word \<Rightarrow> 64 word \<Rightarrow> bool" where
  "double_le = fp_le double_inf"

definition float_plus :: "32 word \<Rightarrow> 32 word \<Rightarrow> 32 word" where
  "float_plus = fp_add 23 float_inf"

definition double_plus :: "64 word \<Rightarrow> 64 word \<Rightarrow> 64 word" where
  "double_plus = fp_add 52 double_inf"

definition float_isnan :: "32 word \<Rightarrow> bool" where
  "float_isnan = fp_nan float_inf"

definition double_isnan :: "64 word \<Rightarrow> bool" where
  "double_isnan = fp_nan double_inf"

section \<open>The operator catalogue (namespace op)\<close>

text \<open>
  \<open>OP::Reduce(DType &dst, const DType &src)\<close> works on two references. The model
  passes the two referenced values in a record and returns the record as the call
  leaves it. The template parameter \<open>DType\<close> is the type variable \<open>'a\<close>; the
  operator of \<open>DType\<close> that the body uses is the first argument.
\<close>

record 'a refs =
  dst :: 'a
  src :: 'a

definition Max_Reduce :: "('a \<Rightarrow> 'a \<Rightarrow> bool) \<Rightarrow> 'a refs \<Rightarrow> 'a refs" where
  "Max_Reduce lt r = (if lt (dst r) (src r) then r\<lparr>dst := src r\<rparr> else r)"

definition Min_Reduce :: "('a \<Rightarrow> 'a \<Rightarrow> bool) \<Rightarrow> 'a refs \<Rightarrow> 'a refs" where
  "Min_Reduce gt r = (if gt (dst r) (src r) then r\<lparr>dst := src r\<rparr> else r)"

definition Sum_Reduce :: "('a \<Rightarrow> 'a \<Rightarrow> 'a) \<Rightarrow> 'a refs \<Rightarrow> 'a refs" where
  "Sum_Reduce add r = r\<lparr>dst := add (dst r) (src r)\<rparr>"

definition BitOR_Reduce :: "('a \<Rightarrow> 'a \<Rightarrow> 'a) \<Rightarrow> 'a refs \<Rightarrow> 'a refs" where
  "BitOR_Reduce bor r = r\<lparr>dst := bor (dst r) (src r)\<rparr>"

text \<open>An operator struct: its \<open>kType\<close> constant and its \<open>Reduce\<close> at one \<open>DType\<close>.\<close>

record 'a OP =
  kType :: OpType
  Reduce :: "'a refs \<Rightarrow> 'a refs"

definition Max_op :: "('a \<Rightarrow> 'a \<Rightarrow> bool) \<Rightarrow> 'a OP" where
  "Max_op lt = \<lparr>kType = kMax, Reduce = Max_Reduce lt\<rparr>"

definition Min_op :: "('a \<Rightarrow> 'a \<Rightarrow> bool) \<Rightarrow> 'a OP" where
  "Min_op gt = \<lparr>kType = kMin, Reduce = Min_Reduce gt\<rparr>"

definition Sum_op :: "('a \<Rightarrow> 'a \<Rightarrow> 'a) \<Rightarrow> 'a OP" where
  "Sum_op add = \<lparr>kType = kSum, Reduce = Sum_Reduce add\<rparr>"

definition BitOR_op :: "('a \<Rightarrow> 'a \<Rightarrow> 'a) \<Rightarrow> 'a OP" where
  "BitOR_op bor = \<lparr>kType = kBitwiseOR, Reduce = BitOR_Reduce bor\<rparr>"

text \<open>
  \<open>combine R a b\<close> is the value \<open>dst\<close> holds after \<open>R(dst, src)\<close> was called with
  \<open>dst = a\<close> and \<open>src = b\<close>.
\<close>

definition combine :: "('a refs \<Rightarrow> 'a refs) \<Rightarrow> 'a \<Rightarrow> 'a \<Rightarrow> 'a" where
  "combine R a b = dst (R \<lparr>dst = a, src = b\<rparr>)"

text \<open>
  \<open>m\<close> is the maximum of \<open>a\<close> and \<open>b\<close> for the comparison \<open>le\<close> (the
  \<open><=\<close> of the type): it is one of them and both are below it or equal to it.
  \<open>is_minimum_of\<close> is the same with both above it or equal to it.
\<close>

definition is_maximum_of :: "('a \<Rightarrow> 'a \<Rightarrow> bool) \<Rightarrow> 'a \<Rightarrow> 'a \<Rightarrow> 'a \<Rightarrow> bool" where
  "is_maximum_of le m a b = ((m = a \<or> m = b) \<and> le a m \<and> le b m)"

definition is_minimum_of :: "('a \<Rightarrow> 'a \<Rightarrow> bool) \<Rightarrow> 'a \<Rightarrow> 'a \<Rightarrow> 'a \<Rightarrow> bool" where
  "is_minimum_of le m a b = ((m = a \<or> m = b) \<and> le m a \<and> le m b)"

text \<open>The two laws the engine expects of a combine function.\<close>

definition associative :: "('a \<Rightarrow> 'a \<Rightarrow> 'a) \<Rightarrow> bool" where
  "associative f = (\<forall>a b c. f (f a b) c = f a (f b c))"

definition commutative :: "('a \<Rightarrow> 'a \<Rightarrow> 'a) \<Rightarrow> bool" where
  "commutative f = (\<forall>a b. f a b = f b a)"

section \<open>Errors\<close>

text \<open>
  What stops a call: an access outside a buffer and the overflow of an \<open>int\<close>
  product (both undefined behaviour in C++), and the fatal assertions of the
  fixed-size memory stream (a write or a read that would pass the end of its window).
\<close>

datatype error = OutOfBounds | IntOverflow | WriteOverflow | ReadPastEnd

text \<open>
  The product of two \<open>size_t\<close> values on an LP64 platform: it wraps around at
  \<open>2 ^ 64\<close>. \<open>INT_MAX\<close> is the greatest \<open>int\<close>.
\<close>

definition size_t_mul :: "nat \<Rightarrow> nat \<Rightarrow> nat" where
  "size_t_mul a b = (a * b) mod 2 ^ 64"

definition INT_MAX :: nat where
  "INT_MAX = 2 ^ 31 - 1"

section \<open>The bulk reducer \<open>op::Reducer\<close>\<close>

text \<open>The two arrays that \<open>src_\<close> and \<open>dst_\<close> point to (\<open>src'\<close> and \<open>dst'\<close> below).\<close>

record 'a bufs =
  src_buf :: "'a list"
  dst_buf :: "'a list"

text \<open>
  Modelled from the spec: \<open>MPI::Datatype\<close> is declared in the engine's headers, which
  are not part of the sources. It carries the byte size of one element, which
  \<open>ReduceHandle::TypeSize\<close> reads back.
\<close>

record MPI_Datatype =
  type_size :: nat

definition TypeSize :: "MPI_Datatype \<Rightarrow> nat" where
  "TypeSize dtype = type_size dtype"

type_synonym 'e ReduceFunction = "'e list \<Rightarrow> 'e list \<Rightarrow> int \<Rightarrow> MPI_Datatype \<Rightarrow> error + 'e bufs"

text \<open>
  The loop \<open>for (int i = 0; i < len; ++i) OP::Reduce(dst[i], src[i])\<close>, from the
  index \<open>i\<close> on. \<open>src\<close> is a pointer to const: only \<open>dst[i]\<close> is written back.
\<close>

function Reducer_loop :: "('a refs \<Rightarrow> 'a refs) \<Rightarrow> int \<Rightarrow> nat \<Rightarrow> 'a bufs \<Rightarrow> error + 'a bufs" where
  "Reducer_loop R len i m =
     (if int i < len then
        (if i < length (dst_buf m) \<and> i < length (src_buf m) then
           Reducer_loop R len (i + 1)
             (m\<lparr>dst_buf := (dst_buf m)[i := dst (R \<lparr>dst = dst_buf m ! i, src = src_buf m ! i\<rparr>)]\<rparr>)
         else Inl OutOfBounds)
      else Inr m)"
  by pat_completeness auto
termination
  by (relation "measure (\<lambda>(R, len, i, m). nat (len - int i))") auto

declare Reducer_loop.simps [simp del]

definition Reducer :: "('a refs \<Rightarrow> 'a refs) \<Rightarrow> 'a ReduceFunction" where
  "Reducer R src' dst' len dtype = Reducer_loop R len 0 \<lparr>src_buf = src', dst_buf = dst'\<rparr>"

section \<open>The typed entry point \<open>Allreduce<OP, DType>\<close>\<close>

text \<open>
  The caller's memory as a collective call sees it: the buffer \<open>sendrecvbuf\<close> points
  to (its \<open>count\<close> elements) and the rest, which only the prepare function touches.
  \<open>prepare_fun\<close> with its \<open>prepare_arg\<close> is a transformation of that memory, or
  \<open>None\<close> for the null pointer.
\<close>

type_synonym ('e, 'r) mem = "'e list \<times> 'r"

type_synonym ('e, 'r) PreprocFunction = "(('e, 'r) mem \<Rightarrow> error + ('e, 'r) mem) option"

text \<open>
  \<open>engine::Allreduce_\<close> is not part of the sources: \<open>Allreduce\<close> takes it as the
  parameter \<open>engine\<close> and hands it the arguments in the order of the call at
  lines 145-146.
\<close>

definition Allreduce ::
  "(nat \<Rightarrow> nat \<Rightarrow> 'a ReduceFunction \<Rightarrow> DataType \<Rightarrow> OpType \<Rightarrow> ('a, 'r) PreprocFunction \<Rightarrow> ('a, 'r) mem \<Rightarrow> 'x)
   \<Rightarrow> 'a OP \<Rightarrow> ctype \<Rightarrow> nat \<Rightarrow> ('a, 'r) PreprocFunction \<Rightarrow> ('a, 'r) mem \<Rightarrow> 'x" where
  "Allreduce engine OP DType count prepare_fun sendrecvbuf =
     engine (sizeof DType) count (Reducer (Reduce OP)) (GetType DType) (kType OP)
       prepare_fun sendrecvbuf"

text \<open>An engine that only records the arguments it is called with.\<close>

record 'a Allreduce_call =
  arg_type_nbytes :: nat
  arg_count :: nat
  arg_red :: "'a ReduceFunction"
  arg_dtype :: DataType
  arg_op :: OpType

definition recording_engine ::
  "nat \<Rightarrow> nat \<Rightarrow> 'a ReduceFunction \<Rightarrow> DataType \<Rightarrow> OpType \<Rightarrow> ('a, 'r) PreprocFunction \<Rightarrow> ('a, 'r) mem
   \<Rightarrow> 'a Allreduce_call" where
  "recording_engine type_nbytes count red dtype op prepare_fun sendrecvbuf =
     \<lparr>arg_type_nbytes = type_nbytes, arg_count = count, arg_red = red, arg_dtype = dtype,
      arg_op = op\<rparr>"

section \<open>The engine's collective, as the spec describes it\<close>

text \<open>
  Modelled from the spec: the transport engine is not part of the sources. A call
  either finds a cached result of an earlier attempt (a replay: the prepare function
  is skipped and the cached result is returned into the caller's buffer), or it runs
  the prepare function once, before any exchange, and then combines the caller's
  buffer with the buffer of every other participant through the reduce function it
  was given, returning the combined result into the caller's buffer. A group of one
  participant has no other participant.
\<close>

datatype 'e engine_run = Fresh "'e list list" | Replay "'e list"

fun reduce_peers :: "'e ReduceFunction \<Rightarrow> nat \<Rightarrow> MPI_Datatype \<Rightarrow> 'e list list \<Rightarrow> 'e list \<Rightarrow> error + 'e list" where
  "reduce_peers red count dtype [] buf = Inr buf"
| "reduce_peers red count dtype (p # ps) buf =
     (case red p buf (int count) dtype of
        Inl e \<Rightarrow> Inl e
      | Inr m \<Rightarrow> reduce_peers red count dtype ps (dst_buf m))"

definition engine_collective ::
  "'e engine_run \<Rightarrow> 'e ReduceFunction \<Rightarrow> nat \<Rightarrow> nat \<Rightarrow> ('e, 'r) PreprocFunction \<Rightarrow> ('e, 'r) mem
   \<Rightarrow> error + ('e, 'r) mem" where
  "engine_collective run red type_nbytes count prepare_fun m =
     (case run of
        Replay cached \<Rightarrow> Inr (cached, snd m)
      | Fresh peers \<Rightarrow>
          (case (case prepare_fun of None \<Rightarrow> Inr m | Some p \<Rightarrow> p m) of
             Inl e \<Rightarrow> Inl e
           | Inr m' \<Rightarrow>
               (case reduce_peers red count \<lparr>type_size = type_nbytes\<rparr> peers (fst m') of
                  Inl e \<Rightarrow> Inl e
                | Inr b \<Rightarrow> Inr (b, snd m'))))"

definition engine_Allreduce ::
  "'e engine_run \<Rightarrow> nat \<Rightarrow> nat \<Rightarrow> 'e ReduceFunction \<Rightarrow> DataType \<Rightarrow> OpType \<Rightarrow> ('e, 'r) PreprocFunction
   \<Rightarrow> ('e, 'r) mem \<Rightarrow> error + ('e, 'r) mem" where
  "engine_Allreduce run type_nbytes count red dtype op prepare_fun m =
     engine_collective run red type_nbytes count prepare_fun m"

section \<open>Broadcast of a vector and of a string\<close>

text \<open>
  What a broadcast does, in the order it does it: a call of the engine's
  \<open>Broadcast\<close> (with its byte count and root) or a \<open>resize\<close> of the container.
  The log is kept beside the engine's own state.
\<close>

datatype bevent = EngineBroadcast nat int | Resize nat

record 'e bworld =
  eng :: 'e
  trace :: "bevent list"

text \<open>
  \<open>Broadcast(void *sendrecv_data, size_t size, int root)\<close>, lines 115-117: one call of
  the engine. The engine is not part of the sources: \<open>bc\<close> is its \<open>Broadcast\<close> on
  the object \<open>sendrecv_data\<close> points to, taking the engine's state and returning it
  with the object as the broadcast leaves it (on the root: as it was).
\<close>

definition Broadcast_raw ::
  "('e \<Rightarrow> 'x \<Rightarrow> nat \<Rightarrow> int \<Rightarrow> 'e \<times> 'x) \<Rightarrow> 'x \<Rightarrow> nat \<Rightarrow> int \<Rightarrow> 'e bworld \<Rightarrow> 'e bworld \<times> 'x" where
  "Broadcast_raw bc sendrecv_data size' root w =
     (let (e', data') = bc (eng w) sendrecv_data size' root
      in (\<lparr>eng = e', trace = trace w @ [EngineBroadcast size' root]\<rparr>, data'))"

text \<open>\<open>sizeof(size_t)\<close> on an LP64 platform.\<close>

definition sizeof_size_t :: nat where
  "sizeof_size_t = 8"

text \<open>
  \<open>resize(n)\<close> of a \<open>std::vector\<close> or \<open>std::string\<close>: the first \<open>n\<close> elements,
  filled up with value-initialised elements \<open>z\<close>.
\<close>

definition resize :: "'a \<Rightarrow> 'a list \<Rightarrow> nat \<Rightarrow> 'a list" where
  "resize z v n = take n v @ replicate (n - length v) z"

text \<open>
  \<open>Broadcast(std::vector<DType> *sendrecv_data, int root)\<close>, lines 118-128.
  \<open>bc_size\<close> is the engine's broadcast on the \<open>size_t\<close> object, \<open>bc_data\<close> on the
  array of elements; \<open>sizeof_DType\<close> is \<open>sizeof(DType)\<close> and \<open>z\<close> is \<open>DType()\<close>.
  \<open>size'\<close> is the variable \<open>size\<close> before the first broadcast and \<open>size1\<close>
  after it.
  Sizes are natural numbers: the product \<open>size * sizeof(DType)\<close> is taken not to
  exceed \<open>size_t\<close>.
\<close>

definition Broadcast_vector ::
  "('e \<Rightarrow> nat \<Rightarrow> nat \<Rightarrow> int \<Rightarrow> 'e \<times> nat) \<Rightarrow> ('e \<Rightarrow> 'a list \<Rightarrow> nat \<Rightarrow> int \<Rightarrow> 'e \<times> 'a list) \<Rightarrow>
   nat \<Rightarrow> 'a \<Rightarrow> int \<Rightarrow> 'e bworld \<times> 'a list \<Rightarrow> 'e bworld \<times> 'a list" where
  "Broadcast_vector bc_size bc_data sizeof_DType z root st =
     (let (w, sendrecv_data) = st;
          size' = length sendrecv_data;
          (w1, size1) = Broadcast_raw bc_size size' sizeof_size_t root w;
          (w2, data2) =
            (if length sendrecv_data \<noteq> size1
             then (w1\<lparr>trace := trace w1 @ [Resize size1]\<rparr>, resize z sendrecv_data size1)
             else (w1, sendrecv_data))
      in if size1 \<noteq> 0 then Broadcast_raw bc_data data2 (size1 * sizeof_DType) root w2
         else (w2, data2))"

text \<open>
  \<open>Broadcast(std::string *sendrecv_data, int root)\<close>, lines 129-138:
  \<open>sizeof(char)\<close> is 1 and \<open>resize\<close> fills up with NUL characters.
\<close>

definition Broadcast_string ::
  "('e \<Rightarrow> nat \<Rightarrow> nat \<Rightarrow> int \<Rightarrow> 'e \<times> nat) \<Rightarrow> ('e \<Rightarrow> string \<Rightarrow> nat \<Rightarrow> int \<Rightarrow> 'e \<times> string) \<Rightarrow>
   int \<Rightarrow> 'e bworld \<times> string \<Rightarrow> 'e bworld \<times> string" where
  "Broadcast_string bc_size bc_data root st =
     (let (w, sendrecv_data) = st;
          size' = length sendrecv_data;
          (w1, size1) = Broadcast_raw bc_size size' sizeof_size_t root w;
          (w2, data2) =
            (if length sendrecv_data \<noteq> size1
             then (w1\<lparr>trace := trace w1 @ [Resize size1]\<rparr>,
                   resize (CHR 0x00) sendrecv_data size1)
             else (w1, sendrecv_data))
      in if size1 \<noteq> 0 then Broadcast_raw bc_data data2 (size1 * 1) root w2
         else (w2, data2))"

text \<open>
  An engine for one receiving participant, for the examples: its state is what the
  root sends (the root's size, then the root's payload), and a broadcast overwrites
  the local object with it.
\<close>

definition recv_size :: "nat \<times> 'a list \<Rightarrow> nat \<Rightarrow> nat \<Rightarrow> int \<Rightarrow> (nat \<times> 'a list) \<times> nat" where
  "recv_size e local nbytes root = (e, fst e)"

definition recv_data :: "nat \<times> 'a list \<Rightarrow> 'a list \<Rightarrow> nat \<Rightarrow> int \<Rightarrow> (nat \<times> 'a list) \<times> 'a list" where
  "recv_data e local nbytes root = (e, snd e)"

section \<open>TrackerPrintf\<close>

definition kPrintBuffer :: nat where
  "kPrintBuffer = 2 ^ 10"

text \<open>
  \<open>vsnprintf(buf, n, fmt, args)\<close> of the C library, where \<open>out\<close> is the character
  sequence that \<open>fmt\<close> and \<open>args\<close> expand to: it writes at most \<open>n - 1\<close> characters
  of \<open>out\<close> and a terminating NUL at the start of \<open>buf\<close>, and nothing when
  \<open>n = 0\<close>. \<open>buf\<close> holds \<open>n\<close> characters or more.
\<close>

definition vsnprintf :: "string \<Rightarrow> nat \<Rightarrow> string \<Rightarrow> string" where
  "vsnprintf buf n out =
     (if n = 0 then buf
      else take (n - 1) out @ [CHR 0x00] @ drop (length (take (n - 1) out) + 1) buf)"

text \<open>
  \<open>TrackerPrintf(fmt, ...)\<close>, lines 166-174. \<open>TrackerPrint\<close> hands the message to the
  engine, which is not part of the sources: it is the parameter \<open>TrackerPrint\<close>.
\<close>

definition TrackerPrintf :: "(string \<Rightarrow> 'x) \<Rightarrow> string \<Rightarrow> 'x" where
  "TrackerPrintf TrackerPrint out =
     (let msg = replicate kPrintBuffer (CHR 0x00);
          msg = vsnprintf msg kPrintBuffer out
      in TrackerPrint msg)"

section \<open>Checkpoints and the version number\<close>

text \<open>
  Modelled from the spec: the checkpoint state lives in the engine, which is not part
  of the sources. It holds the version number and the last committed global and local
  model; it starts at version 0 with nothing committed. \<open>CheckPoint\<close> commits both
  models and increments the version; \<open>LazyCheckPoint\<close> records the global model and
  increments the version; \<open>LoadCheckPoint\<close> returns the version of the checkpoint it
  restores (0 if there is none) and puts the committed models into the caller's, which
  stay as they are when nothing is committed. The local model pointer may be null
  (\<open>None\<close>).
\<close>

record ('g, 'l) CheckpointState =
  version :: int
  global_committed :: "'g option"
  local_committed :: "'l option"
  lazy :: bool

definition initial_CheckpointState :: "('g, 'l) CheckpointState" where
  "initial_CheckpointState =
     \<lparr>version = 0, global_committed = None, local_committed = None, lazy = False\<rparr>"

definition engine_CheckPoint ::
  "'g \<Rightarrow> 'l option \<Rightarrow> ('g, 'l) CheckpointState \<Rightarrow> ('g, 'l) CheckpointState" where
  "engine_CheckPoint global_model local_model s =
     \<lparr>version = version s + 1, global_committed = Some global_model,
      local_committed = local_model, lazy = False\<rparr>"

definition engine_LazyCheckPoint ::
  "'g \<Rightarrow> ('g, 'l) CheckpointState \<Rightarrow> ('g, 'l) CheckpointState" where
  "engine_LazyCheckPoint global_model s =
     s\<lparr>version := version s + 1, global_committed := Some global_model, lazy := True\<rparr>"

definition engine_LoadCheckPoint ::
  "'g \<Rightarrow> 'l \<Rightarrow> ('g, 'l) CheckpointState \<Rightarrow> int \<times> 'g \<times> 'l" where
  "engine_LoadCheckPoint global_model local_model s =
     (case global_committed s of
        None \<Rightarrow> (0, global_model, local_model)
      | Some g \<Rightarrow>
          (version s, g, (case local_committed s of None \<Rightarrow> local_model | Some l \<Rightarrow> l)))"

definition engine_VersionNumber :: "('g, 'l) CheckpointState \<Rightarrow> int" where
  "engine_VersionNumber s = version s"

text \<open>The four entry points of lines 176-193: each delegates to the engine.\<close>

definition LoadCheckPoint :: "'g \<Rightarrow> 'l \<Rightarrow> ('g, 'l) CheckpointState \<Rightarrow> int \<times> 'g \<times> 'l" where
  "LoadCheckPoint global_model local_model s = engine_LoadCheckPoint global_model local_model s"

definition CheckPoint ::
  "'g \<Rightarrow> 'l option \<Rightarrow> ('g, 'l) CheckpointState \<Rightarrow> ('g, 'l) CheckpointState" where
  "CheckPoint global_model local_model s = engine_CheckPoint global_model local_model s"

definition LazyCheckPoint :: "'g \<Rightarrow> ('g, 'l) CheckpointState \<Rightarrow> ('g, 'l) CheckpointState" where
  "LazyCheckPoint global_model s = engine_LazyCheckPoint global_model s"

definition VersionNumber :: "('g, 'l) CheckpointState \<Rightarrow> int" where
  "VersionNumber s = engine_VersionNumber s"

text \<open>A sequence of checkpoint calls, run from left to right.\<close>

datatype ('g, 'l) checkpoint_call = Full 'g "'l option" | Lazy 'g

fun run_call :: "('g, 'l) checkpoint_call \<Rightarrow> ('g, 'l) CheckpointState \<Rightarrow> ('g, 'l) CheckpointState" where
  "run_call (Full g l) s = CheckPoint g l s"
| "run_call (Lazy g) s = LazyCheckPoint g s"

fun run_calls :: "('g, 'l) checkpoint_call list \<Rightarrow> ('g, 'l) CheckpointState \<Rightarrow> ('g, 'l) CheckpointState" where
  "run_calls [] s = s"
| "run_calls (c # cs) s = run_calls cs (run_call c s)"

fun global_of :: "('g, 'l) checkpoint_call \<Rightarrow> 'g" where
  "global_of (Full g l) = g"
| "global_of (Lazy g) = g"

section \<open>Serializable objects and the fixed-size memory stream\<close>

type_synonym byte = "8 word"

text \<open>
  Modelled from the spec: the object type \<open>DType\<close> of the serializing reducer is a
  template parameter with the capability set \<open>{save, load, reduce}\<close>. \<open>Save\<close> gives
  the bytes the object writes to a stream; \<open>Load\<close> takes the bytes available at the
  cursor of a stream and gives the decoded object with the number of bytes it read, or
  \<open>None\<close> when decoding reads past the end; \<open>Reduce_obj tdst tsrc nbytes\<close> is the
  object \<open>tdst\<close> after \<open>tdst.Reduce(tsrc, nbytes)\<close>.
\<close>

record 'a SerializableObject =
  Save :: "'a \<Rightarrow> byte list"
  Load :: "byte list \<Rightarrow> ('a \<times> nat) option"
  Reduce_obj :: "'a \<Rightarrow> 'a \<Rightarrow> nat \<Rightarrow> 'a"

text \<open>
  Modelled from the spec: \<open>utils::MemoryFixSizeBuffer\<close> is declared in a header that is
  not part of the sources. It is a window of fixed size over memory with a cursor that
  starts at 0; a write that does not fit between the cursor and the end of the window
  is a fatal error and not a truncation, and so is a read past the end.
\<close>

record MemoryFixSizeBuffer =
  p_buffer :: "byte list"
  curr_ptr :: nat

definition fs_init :: "byte list \<Rightarrow> MemoryFixSizeBuffer" where
  "fs_init window = \<lparr>p_buffer = window, curr_ptr = 0\<rparr>"

definition fs_Write :: "MemoryFixSizeBuffer \<Rightarrow> byte list \<Rightarrow> error + MemoryFixSizeBuffer" where
  "fs_Write fs bytes =
     (if curr_ptr fs + length bytes \<le> length (p_buffer fs)
      then Inr \<lparr>p_buffer = take (curr_ptr fs) (p_buffer fs) @ bytes
                    @ drop (curr_ptr fs + length bytes) (p_buffer fs),
                curr_ptr = curr_ptr fs + length bytes\<rparr>
      else Inl WriteOverflow)"

definition fs_Seek :: "MemoryFixSizeBuffer \<Rightarrow> nat \<Rightarrow> MemoryFixSizeBuffer" where
  "fs_Seek fs pos = fs\<lparr>curr_ptr := pos\<rparr>"

text \<open>\<open>obj.Save(fs)\<close> and \<open>obj.Load(fs)\<close> on such a stream.\<close>

definition obj_Save ::
  "'a SerializableObject \<Rightarrow> 'a \<Rightarrow> MemoryFixSizeBuffer \<Rightarrow> error + MemoryFixSizeBuffer" where
  "obj_Save T x fs = fs_Write fs (Save T x)"

definition obj_Load ::
  "'a SerializableObject \<Rightarrow> MemoryFixSizeBuffer \<Rightarrow> error + ('a \<times> MemoryFixSizeBuffer)" where
  "obj_Load T fs =
     (case Load T (drop (curr_ptr fs) (p_buffer fs)) of
        None \<Rightarrow> Inl ReadPastEnd
      | Some (x, n) \<Rightarrow>
          if curr_ptr fs + n \<le> length (p_buffer fs)
          then Inr (x, fs\<lparr>curr_ptr := curr_ptr fs + n\<rparr>)
          else Inl ReadPastEnd)"

text \<open>
  The \<open>nbytes\<close> bytes at \<open>p + off\<close>, and memory with the bytes at \<open>p + off\<close>
  replaced by what a stream over them holds after its writes.
\<close>

definition window :: "byte list \<Rightarrow> nat \<Rightarrow> nat \<Rightarrow> byte list" where
  "window buf off nbytes = take nbytes (drop off buf)"

definition put_window :: "byte list \<Rightarrow> nat \<Rightarrow> byte list \<Rightarrow> byte list" where
  "put_window buf off s = take off buf @ s @ drop (off + length s) buf"

text \<open>
  Slot \<open>i\<close> of a buffer of slots of \<open>nbytes\<close> bytes: the window at the offset
  \<open>i * nbytes\<close>, the product being the exact one.
\<close>

definition slot :: "byte list \<Rightarrow> nat \<Rightarrow> nat \<Rightarrow> byte list" where
  "slot buf nbytes i = window buf (i * nbytes) nbytes"

definition put_slot :: "byte list \<Rightarrow> nat \<Rightarrow> nat \<Rightarrow> byte list \<Rightarrow> byte list" where
  "put_slot buf nbytes i s = put_window buf (i * nbytes) s"

section \<open>The adapter \<open>SerializeReducerFunc_\<close>\<close>

text \<open>
  The body of the loop of lines 228-237 at index \<open>i\<close>: two streams over the
  \<open>nbytes\<close> bytes at the offset \<open>i * nbytes\<close> of \<open>src_\<close> and of \<open>dst_\<close>, the two
  loads, the reduce, the seek to 0 and the save. \<open>nbytes\<close> is an \<open>int\<close> and the
  offset is a product of two \<open>int\<close>: beyond \<open>INT_MAX\<close> they overflow. A window
  outside its buffer is an access out of bounds.
\<close>

definition SerializeReducerFunc_body ::
  "'a SerializableObject \<Rightarrow> nat \<Rightarrow> nat \<Rightarrow> byte bufs \<Rightarrow> error + byte bufs" where
  "SerializeReducerFunc_body T nbytes i m =
     (if INT_MAX < nbytes \<or> INT_MAX < i * nbytes then Inl IntOverflow
      else if i * nbytes + nbytes \<le> length (src_buf m) \<and>
              i * nbytes + nbytes \<le> length (dst_buf m) then
        (let fsrc = fs_init (window (src_buf m) (i * nbytes) nbytes);
             fdst = fs_init (window (dst_buf m) (i * nbytes) nbytes)
         in case obj_Load T fsrc of
              Inl e \<Rightarrow> Inl e
            | Inr (tsrc, fsrc1) \<Rightarrow>
                (case obj_Load T fdst of
                   Inl e \<Rightarrow> Inl e
                 | Inr (tdst, fdst1) \<Rightarrow>
                     (let tdst1 = Reduce_obj T tdst tsrc nbytes;
                          fdst2 = fs_Seek fdst1 0
                      in case obj_Save T tdst1 fdst2 of
                           Inl e \<Rightarrow> Inl e
                         | Inr fdst3 \<Rightarrow>
                             Inr (m\<lparr>dst_buf :=
                                     put_window (dst_buf m) (i * nbytes) (p_buffer fdst3)\<rparr>))))
      else Inl OutOfBounds)"

function SerializeReducerFunc_loop ::
  "'a SerializableObject \<Rightarrow> nat \<Rightarrow> int \<Rightarrow> nat \<Rightarrow> byte bufs \<Rightarrow> error + byte bufs" where
  "SerializeReducerFunc_loop T nbytes len i m =
     (if int i < len then
        (case SerializeReducerFunc_body T nbytes i m of
           Inl e \<Rightarrow> Inl e
         | Inr m1 \<Rightarrow> SerializeReducerFunc_loop T nbytes len (i + 1) m1)
      else Inr m)"
  by pat_completeness auto
termination
  by (relation "measure (\<lambda>(T, nbytes, len, i, m). nat (len - int i))") auto

declare SerializeReducerFunc_loop.simps [simp del]

definition SerializeReducerFunc :: "'a SerializableObject \<Rightarrow> byte ReduceFunction" where
  "SerializeReducerFunc T src' dst' len dtype =
     SerializeReducerFunc_loop T (TypeSize dtype) len 0 \<lparr>src_buf = src', dst_buf = dst'\<rparr>"

section \<open>The serializing reducer\<close>

text \<open>
  The memory a call of \<open>SerializeReducer<DType>::Allreduce\<close> works on, beside the
  member \<open>buffer_\<close>: the array \<open>sendrecvobj\<close> points to and whatever else the prepare
  function reads and writes.
\<close>

record ('a, 'u) sr_mem =
  sendrecvobj :: "'a list"
  user :: 'u

text \<open>
  \<open>SerializeReduceClosure\<close>, lines 244-262. The pointers \<open>sendrecvobj\<close> and
  \<open>p_buffer\<close> designate the array of objects and \<open>buffer_\<close>; \<open>prepare_fun\<close> with
  \<open>prepare_arg\<close> is a transformation of the caller's memory, \<open>None\<close> for NULL.
\<close>

record ('a, 'u) SerializeReduceClosure =
  max_nbyte :: nat
  count :: nat
  prepare_fun :: "(('a, 'u) sr_mem \<Rightarrow> ('a, 'u) sr_mem) option"

text \<open>
  The loop of \<open>Run\<close>, lines 254-257, from the index \<open>i\<close> on. The offset
  \<open>i * max_nbyte\<close> is a product of two \<open>size_t\<close>.
\<close>

function Run_loop ::
  "'a SerializableObject \<Rightarrow> ('a, 'u) SerializeReduceClosure \<Rightarrow> nat \<Rightarrow> (byte, ('a, 'u) sr_mem) mem
   \<Rightarrow> error + (byte, ('a, 'u) sr_mem) mem" where
  "Run_loop T c i m =
     (if i < count c then
        (if i < length (sendrecvobj (snd m)) \<and>
            size_t_mul i (max_nbyte c) + max_nbyte c \<le> length (fst m) then
           (case obj_Save T (sendrecvobj (snd m) ! i)
                   (fs_init (window (fst m) (size_t_mul i (max_nbyte c)) (max_nbyte c))) of
              Inl e \<Rightarrow> Inl e
            | Inr fs \<Rightarrow>
                Run_loop T c (i + 1)
                  (put_window (fst m) (size_t_mul i (max_nbyte c)) (p_buffer fs), snd m))
         else Inl OutOfBounds)
      else Inr m)"
  by pat_completeness auto
termination
  by (relation "measure (\<lambda>(T, c, i, m). count c - i)") auto

declare Run_loop.simps [simp del]

definition Run ::
  "'a SerializableObject \<Rightarrow> ('a, 'u) SerializeReduceClosure \<Rightarrow> (byte, ('a, 'u) sr_mem) mem
   \<Rightarrow> error + (byte, ('a, 'u) sr_mem) mem" where
  "Run T c m =
     Run_loop T c 0 (case prepare_fun c of None \<Rightarrow> m | Some p \<Rightarrow> (fst m, p (snd m)))"

text \<open>
  Modelled from the spec: \<open>ReduceHandle::Allreduce\<close> belongs to the engine. The handle
  was initialised with its reduce function (line 241); the call delegates to the
  engine's collective on the byte buffer, with the closure as the prepare function.
\<close>

definition ReduceHandle_Allreduce ::
  "'e engine_run \<Rightarrow> 'e ReduceFunction \<Rightarrow> nat \<Rightarrow> nat \<Rightarrow> ('e, 'r) PreprocFunction \<Rightarrow> ('e, 'r) mem
   \<Rightarrow> error + ('e, 'r) mem" where
  "ReduceHandle_Allreduce run redfunc type_nbytes count' prepare m =
     engine_collective run redfunc type_nbytes count' prepare m"

text \<open>
  The loop of lines 276-279, from the index \<open>i\<close> on, with the same offset.
\<close>

function Load_loop ::
  "'a SerializableObject \<Rightarrow> nat \<Rightarrow> nat \<Rightarrow> nat \<Rightarrow> (byte, ('a, 'u) sr_mem) mem
   \<Rightarrow> error + (byte, ('a, 'u) sr_mem) mem" where
  "Load_loop T max_nbyte' count' i m =
     (if i < count' then
        (if i < length (sendrecvobj (snd m)) \<and>
            size_t_mul i max_nbyte' + max_nbyte' \<le> length (fst m) then
           (case obj_Load T (fs_init (window (fst m) (size_t_mul i max_nbyte') max_nbyte')) of
              Inl e \<Rightarrow> Inl e
            | Inr (x, fs) \<Rightarrow>
                Load_loop T max_nbyte' count' (i + 1)
                  (fst m, (snd m)\<lparr>sendrecvobj := (sendrecvobj (snd m))[i := x]\<rparr>))
         else Inl OutOfBounds)
      else Inr m)"
  by pat_completeness auto
termination
  by (relation "measure (\<lambda>(T, max_nbyte', count', i, m). count' - i)") auto

declare Load_loop.simps [simp del]

text \<open>
  \<open>SerializeReducer<DType>::Allreduce\<close>, lines 263-280. \<open>run\<close> is what the engine does
  in this call. The first component of the memory is the member \<open>buffer_\<close>, a
  \<open>std::string\<close>, whose \<open>resize\<close> fills up with NUL bytes. The new size
  \<open>max_nbyte * count\<close> is a product of two \<open>size_t\<close>.
\<close>

definition SerializeReducer_Allreduce ::
  "'a SerializableObject \<Rightarrow> byte engine_run \<Rightarrow> nat \<Rightarrow> nat \<Rightarrow>
   (('a, 'u) sr_mem \<Rightarrow> ('a, 'u) sr_mem) option \<Rightarrow> (byte, ('a, 'u) sr_mem) mem
   \<Rightarrow> error + (byte, ('a, 'u) sr_mem) mem" where
  "SerializeReducer_Allreduce T run max_nbyte' count' prepare_fun' m =
     (let buffer1 = resize 0 (fst m) (size_t_mul max_nbyte' count');
          c = \<lparr>max_nbyte = max_nbyte', count = count', prepare_fun = prepare_fun'\<rparr>
      in case ReduceHandle_Allreduce run (SerializeReducerFunc T) max_nbyte' count'
                (Some (Run T c)) (buffer1, snd m) of
           Inl e \<Rightarrow> Inl e
         | Inr m2 \<Rightarrow> Load_loop T max_nbyte' count' 0 m2)"

text \<open>
  An object type for the examples: one byte, saved as itself, loaded from the first
  byte of the stream, reduced by addition.
\<close>

definition byte_object :: "byte SerializableObject" where
  "byte_object =
     \<lparr>Save = (\<lambda>x. [x]),
      Load = (\<lambda>bs. case bs of [] \<Rightarrow> None | b # rest \<Rightarrow> Some (b, 1)),
      Reduce_obj = (\<lambda>tdst tsrc nbytes. tdst + tsrc)\<rparr>"

text \<open>
  What the body of the adapter's loop makes of one pair of slots: the bytes of the
  destination slot after the two loads, the reduce, the seek and the save.
\<close>

definition slot_result ::
  "'a SerializableObject \<Rightarrow> nat \<Rightarrow> byte list \<Rightarrow> byte list \<Rightarrow> error + byte list" where
  "slot_result T nbytes ssrc sdst =
     (case obj_Load T (fs_init ssrc) of
        Inl e \<Rightarrow> Inl e
      | Inr (tsrc, fsrc1) \<Rightarrow>
          (case obj_Load T (fs_init sdst) of
             Inl e \<Rightarrow> Inl e
           | Inr (tdst, fdst1) \<Rightarrow>
               (case obj_Save T (Reduce_obj T tdst tsrc nbytes) (fs_Seek fdst1 0) of
                  Inl e \<Rightarrow> Inl e
                | Inr fdst3 \<Rightarrow> Inr (p_buffer fdst3))))"

section \<open>Facts about the operators\<close>

lemmas op_defs = Max_Reduce_def Min_Reduce_def Sum_Reduce_def BitOR_Reduce_def combine_def

lemmas fp_eval = float_lt_def float_gt_def float_eq_def float_isnan_def float_inf_def
  double_lt_def double_gt_def double_eq_def double_isnan_def double_inf_def
  fp_lt_def fp_gt_def fp_eq_def fp_nan_def fp_key_def fp_neg_def fp_mag_def

lemma combine_Max: "combine (Max_Reduce lt) a b = (if lt a b then b else a)"
  by (simp add: op_defs)

lemma combine_Min: "combine (Min_Reduce gt) a b = (if gt a b then b else a)"
  by (simp add: op_defs)

lemma combine_Sum: "combine (Sum_Reduce add) a b = add a b"
  by (simp add: op_defs)

lemma combine_BitOR: "combine (BitOR_Reduce bor) a b = bor a b"
  by (simp add: op_defs)

lemma fp_gt_flip: "fp_gt p a b = fp_lt p b a"
  by (auto simp: fp_gt_def fp_lt_def)

lemma float_gt_flip: "float_gt a b = float_lt b a"
  by (simp add: float_gt_def float_lt_def fp_gt_flip)

lemma double_gt_flip: "double_gt a b = double_lt b a"
  by (simp add: double_gt_def double_lt_def fp_gt_flip)

lemma fp_units_mono:
  assumes "0 \<le> m1" "m1 < m2"
  shows "fp_units p m1 < fp_units p m2"
proof -
  let ?P = "2 ^ p :: int"
  let ?e1 = "m1 div ?P" and ?e2 = "m2 div ?P" and ?f1 = "m1 mod ?P" and ?f2 = "m2 mod ?P"
  have P: "0 < ?P" by simp
  have f1: "0 \<le> ?f1" "?f1 < ?P" and f2: "0 \<le> ?f2" "?f2 < ?P" by simp_all
  have e1: "0 \<le> ?e1" using assms(1) by (simp add: pos_imp_zdiv_nonneg_iff)
  have e12: "?e1 \<le> ?e2" using assms(2) by (simp add: zdiv_mono1)
  show ?thesis
  proof (cases "?e1 = ?e2")
    case True
    have "m1 = ?P * ?e1 + ?f1" "m2 = ?P * ?e2 + ?f2" by simp_all
    with True assms(2) have "?f1 < ?f2" by (metis add_less_cancel_left)
    with True show ?thesis by (simp add: fp_units_def Let_def)
  next
    case False
    with e12 have lt: "?e1 < ?e2" by simp
    then have e2pos: "0 < ?e2" using e1 by simp
    have g2: "fp_units p m2 = (?P + ?f2) * 2 ^ nat (?e2 - 1)" using e2pos by (simp add: fp_units_def Let_def)
    have lb: "?P * 2 ^ nat (?e2 - 1) \<le> fp_units p m2"
      unfolding g2 using f2(1) by (simp add: mult_right_mono)
    show ?thesis
    proof (cases "?e1 = 0")
      case True
      then have "fp_units p m1 = ?f1" by (simp add: fp_units_def Let_def)
      moreover have "?P * 1 \<le> ?P * 2 ^ nat (?e2 - 1)" by (intro mult_left_mono) simp_all
      then have "?P \<le> ?P * 2 ^ nat (?e2 - 1)" by simp
      ultimately show ?thesis using f1(2) lb by linarith
    next
      case False
      with e1 have e1pos: "0 < ?e1" by simp
      have g1: "fp_units p m1 = (?P + ?f1) * 2 ^ nat (?e1 - 1)" using e1pos by (simp add: fp_units_def Let_def)
      have "(?P + ?f1) * 2 ^ nat (?e1 - 1) < (2 * ?P) * 2 ^ nat (?e1 - 1)"
        using f1(2) by (intro mult_strict_right_mono) simp_all
      also have "\<dots> = ?P * 2 ^ Suc (nat (?e1 - 1))" by simp
      also have "Suc (nat (?e1 - 1)) = nat ?e1" using e1pos by simp
      also have "?P * 2 ^ nat ?e1 \<le> ?P * 2 ^ nat (?e2 - 1)"
        using lt by (intro mult_left_mono power_increasing) simp_all
      finally show ?thesis using g1 lb by simp
    qed
  qed
qed

lemma fp_units_0: "fp_units p 0 = 0"
  by (simp add: fp_units_def Let_def)

lemma fp_units_pos: "0 < m \<Longrightarrow> 0 < fp_units p m"
  using fp_units_mono [of 0 m p] by (simp add: fp_units_0)

lemma fp_units_less_iff: "0 \<le> a \<Longrightarrow> 0 \<le> b \<Longrightarrow> fp_units p a < fp_units p b \<longleftrightarrow> a < b"
  by (metis fp_units_mono linorder_neqE_linordered_idom order_less_asym order_less_irrefl)

lemma fp_units_nonneg: "0 \<le> m \<Longrightarrow> 0 \<le> fp_units p m"
  using fp_units_pos [of m p] by (cases "m = 0") (simp_all add: fp_units_0)

lemma neg_less_iff_nonneg: "0 \<le> x \<Longrightarrow> 0 \<le> y \<Longrightarrow> (- x < y) = (\<not> (x = 0 \<and> y = 0))"
  for x y :: int
  by arith

lemma not_less_neg_nonneg: "0 \<le> x \<Longrightarrow> 0 \<le> y \<Longrightarrow> \<not> x < - y"
  for x y :: int
  by arith

lemma fp_key_scaled: "fp_key a < fp_key b \<longleftrightarrow> fp_scaled p a < fp_scaled p b"
proof -
  let ?a = "uint (fp_mag a)" and ?b = "uint (fp_mag b)"
  have n: "0 \<le> ?a" "0 \<le> ?b" by simp_all
  note u = fp_units_less_iff [OF n, of p] fp_units_less_iff [OF n(2) n(1), of p]
    fp_units_nonneg [OF n(1), of p] fp_units_nonneg [OF n(2), of p]
  show ?thesis
  proof (cases "fp_neg a")
    case True
    note A = this
    show ?thesis
    proof (cases "fp_neg b")
      case True
      with A u show ?thesis by (simp add: fp_key_def fp_scaled_def fp_scaled_mag_def)
    next
      case False
      have z: "fp_units p m = 0 \<longleftrightarrow> m = 0" if "0 \<le> m" for m
        using fp_units_pos [of m p] that by (cases "m = 0") (auto simp: fp_units_0)
      have "- ?a < ?b \<longleftrightarrow> \<not> (?a = 0 \<and> ?b = 0)" by (rule neg_less_iff_nonneg [OF n])
      moreover have "- fp_units p ?a < fp_units p ?b \<longleftrightarrow> \<not> (fp_units p ?a = 0 \<and> fp_units p ?b = 0)"
        by (rule neg_less_iff_nonneg [OF u(3,4)])
      ultimately have "- ?a < ?b \<longleftrightarrow> - fp_units p ?a < fp_units p ?b"
        using z [OF n(1)] z [OF n(2)] by simp
      then show ?thesis using A False
        by (simp add: fp_key_def fp_scaled_def fp_scaled_mag_def)
    qed
  next
    case False
    note A = this
    show ?thesis
    proof (cases "fp_neg b")
      case True
      have "\<not> ?a < - ?b" by (rule not_less_neg_nonneg [OF n])
      moreover have "\<not> fp_units p ?a < - fp_units p ?b" by (rule not_less_neg_nonneg [OF u(3,4)])
      ultimately show ?thesis using A True
        by (simp add: fp_key_def fp_scaled_def fp_scaled_mag_def)
    next
      case False
      with A u show ?thesis by (simp add: fp_key_def fp_scaled_def fp_scaled_mag_def)
    qed
  qed
qed

lemma fp_key_scaled_le: "fp_key a \<le> fp_key b \<longleftrightarrow> fp_scaled p a \<le> fp_scaled p b"
  using fp_key_scaled [of b a p] by (simp add: not_less [symmetric])

lemma fp_lt_value:
  "fp_lt pinf a b = (\<not> fp_nan pinf a \<and> \<not> fp_nan pinf b \<and> fp_scaled p a < fp_scaled p b)"
  by (simp add: fp_lt_def fp_key_scaled [of a b p])

lemma fp_le_value:
  "fp_le pinf a b = (\<not> fp_nan pinf a \<and> \<not> fp_nan pinf b \<and> fp_scaled p a \<le> fp_scaled p b)"
  by (simp add: fp_le_def fp_key_scaled_le [of a b p])

lemma fp_Max_maximum:
  assumes "\<not> fp_nan p x" "\<not> fp_nan p y"
  shows "is_maximum_of (fp_le p) (combine (Max_Reduce (fp_lt p)) x y) x y"
  using assms by (auto simp: is_maximum_of_def combine_Max fp_lt_def fp_le_def)

lemma fp_Min_minimum:
  assumes "\<not> fp_nan p x" "\<not> fp_nan p y"
  shows "is_minimum_of (fp_le p) (combine (Min_Reduce (fp_gt p)) x y) x y"
  using assms by (auto simp: is_minimum_of_def combine_Min fp_gt_def fp_le_def)

lemma fp_nan_keeps_dst:
  assumes "fp_nan p x \<or> fp_nan p y"
  shows "combine (Max_Reduce (fp_lt p)) x y = x" and "combine (Min_Reduce (fp_gt p)) x y = x"
  using assms by (auto simp: combine_Max combine_Min fp_lt_def fp_gt_def)

text \<open>
  C5, as stated, fails on \<open>float\<close>: with \<open>dst\<close> a NaN (\<open>0x7FC00000\<close>) and \<open>src\<close>
  the value \<open>1.0\<close> (\<open>0x3F800000\<close>), \<open>dst < src\<close> is false and \<open>Max::Reduce\<close>
  leaves the NaN in \<open>dst\<close>, which is not the maximum of the two: \<open>1.0 <= NaN\<close>
  is false.
\<close>

theorem C5_counterexample:
  "\<not> is_maximum_of float_le (combine (Max_Reduce float_lt) 0x7FC00000 0x3F800000)
       0x7FC00000 0x3F800000"
  by (simp add: is_maximum_of_def combine_Max float_le_def fp_le_def fp_eval)

text \<open>
  C5, amended. \<open>Max::Reduce\<close> assigns \<open>src\<close> to \<open>dst\<close> exactly when \<open>dst < src\<close>
  and otherwise leaves \<open>dst\<close> as it is; \<open>Min::Reduce\<close> does so exactly when
  \<open>dst > src\<close>, which for each of the scalar types is \<open>src < dst\<close>; \<open>Sum::Reduce\<close>
  sets \<open>dst\<close> to \<open>dst + src\<close> and \<open>BitOR::Reduce\<close> to \<open>dst | src\<close>; none of the
  four changes \<open>src\<close>. After \<open>Max::Reduce\<close> (\<open>Min::Reduce\<close>) \<open>dst\<close> is the maximum
  (minimum) of the two values on the integer types, and on \<open>float\<close> and \<open>double\<close>
  when neither operand is a NaN; when one is a NaN, \<open>dst\<close> is left as it was. The
  comparisons of \<open>float\<close> and \<open>double\<close> are those of the values the patterns stand
  for (in units of the least positive value), and false when an operand is a NaN.
\<close>

theorem C5_operator_semantics:
  fixes r :: "'a refs" and a b :: "'n::len word" and x y :: "32 word" and u v :: "64 word"
  shows
  "dst (Max_Reduce lt r) = (if lt (dst r) (src r) then src r else dst r) \<and>
   src (Max_Reduce lt r) = src r \<and>
   dst (Min_Reduce gt r) = (if gt (dst r) (src r) then src r else dst r) \<and>
   src (Min_Reduce gt r) = src r \<and>
   dst (Sum_Reduce add r) = add (dst r) (src r) \<and>
   src (Sum_Reduce add r) = src r \<and>
   dst (BitOR_Reduce bor r) = bor (dst r) (src r) \<and>
   src (BitOR_Reduce bor r) = src r \<and>
   signed_gt a b = signed_lt b a \<and>
   unsigned_gt a b = unsigned_lt b a \<and>
   float_gt x y = float_lt y x \<and>
   double_gt u v = double_lt v u \<and>
   is_maximum_of signed_le (combine (Max_Reduce signed_lt) a b) a b \<and>
   is_maximum_of unsigned_le (combine (Max_Reduce unsigned_lt) a b) a b \<and>
   is_minimum_of signed_le (combine (Min_Reduce signed_gt) a b) a b \<and>
   is_minimum_of unsigned_le (combine (Min_Reduce unsigned_gt) a b) a b \<and>
   sint (combine (Max_Reduce signed_lt) a b) = max (sint a) (sint b) \<and>
   sint (combine (Min_Reduce signed_gt) a b) = min (sint a) (sint b) \<and>
   combine (Max_Reduce unsigned_lt) a b = max a b \<and>
   combine (Min_Reduce unsigned_gt) a b = min a b \<and>
   combine (Sum_Reduce int_plus) a b = a + b \<and>
   combine (BitOR_Reduce int_or) a b = a OR b \<and>
   combine (Sum_Reduce float_plus) x y = float_plus x y \<and>
   combine (Sum_Reduce double_plus) u v = double_plus u v \<and>
   (\<not> float_isnan x \<and> \<not> float_isnan y \<longrightarrow>
      is_maximum_of float_le (combine (Max_Reduce float_lt) x y) x y \<and>
      is_minimum_of float_le (combine (Min_Reduce float_gt) x y) x y) \<and>
   (\<not> double_isnan u \<and> \<not> double_isnan v \<longrightarrow>
      is_maximum_of double_le (combine (Max_Reduce double_lt) u v) u v \<and>
      is_minimum_of double_le (combine (Min_Reduce double_gt) u v) u v) \<and>
   (float_isnan x \<or> float_isnan y \<longrightarrow>
      combine (Max_Reduce float_lt) x y = x \<and> combine (Min_Reduce float_gt) x y = x) \<and>
   (double_isnan u \<or> double_isnan v \<longrightarrow>
      combine (Max_Reduce double_lt) u v = u \<and> combine (Min_Reduce double_gt) u v = u) \<and>
   float_lt x y =
     (\<not> float_isnan x \<and> \<not> float_isnan y \<and> fp_scaled 23 x < fp_scaled 23 y) \<and>
   float_le x y =
     (\<not> float_isnan x \<and> \<not> float_isnan y \<and> fp_scaled 23 x \<le> fp_scaled 23 y) \<and>
   double_lt u v =
     (\<not> double_isnan u \<and> \<not> double_isnan v \<and> fp_scaled 52 u < fp_scaled 52 v) \<and>
   double_le u v =
     (\<not> double_isnan u \<and> \<not> double_isnan v \<and> fp_scaled 52 u \<le> fp_scaled 52 v)"
proof -
  have ops: "dst (Max_Reduce lt r) = (if lt (dst r) (src r) then src r else dst r)"
    "src (Max_Reduce lt r) = src r"
    "dst (Min_Reduce gt r) = (if gt (dst r) (src r) then src r else dst r)"
    "src (Min_Reduce gt r) = src r"
    "dst (Sum_Reduce add r) = add (dst r) (src r)"
    "src (Sum_Reduce add r) = src r"
    "dst (BitOR_Reduce bor r) = bor (dst r) (src r)"
    "src (BitOR_Reduce bor r) = src r"
    by (simp_all add: op_defs)
  have flips: "signed_gt a b = signed_lt b a" "unsigned_gt a b = unsigned_lt b a"
    "float_gt x y = float_lt y x" "double_gt u v = double_lt v u"
    by (simp_all add: signed_gt_def signed_lt_def unsigned_gt_def unsigned_lt_def
        float_gt_flip double_gt_flip)
  have mx: "is_maximum_of signed_le (combine (Max_Reduce signed_lt) a b) a b"
    "is_maximum_of unsigned_le (combine (Max_Reduce unsigned_lt) a b) a b"
    "is_minimum_of signed_le (combine (Min_Reduce signed_gt) a b) a b"
    "is_minimum_of unsigned_le (combine (Min_Reduce unsigned_gt) a b) a b"
    by (auto simp: is_maximum_of_def is_minimum_of_def combine_Max combine_Min signed_lt_def
        signed_gt_def signed_le_def unsigned_lt_def unsigned_gt_def unsigned_le_def)
  have mm: "sint (combine (Max_Reduce signed_lt) a b) = max (sint a) (sint b)"
    "sint (combine (Min_Reduce signed_gt) a b) = min (sint a) (sint b)"
    "combine (Max_Reduce unsigned_lt) a b = max a b"
    "combine (Min_Reduce unsigned_gt) a b = min a b"
    "combine (Sum_Reduce int_plus) a b = a + b"
    "combine (BitOR_Reduce int_or) a b = a OR b"
    "combine (Sum_Reduce float_plus) x y = float_plus x y"
    "combine (Sum_Reduce double_plus) u v = double_plus u v"
    by (auto simp: combine_Max combine_Min combine_Sum combine_BitOR signed_lt_def
        signed_gt_def unsigned_lt_def unsigned_gt_def int_plus_def int_or_def max_def min_def)
  have fl: "\<not> float_isnan x \<and> \<not> float_isnan y \<longrightarrow>
      is_maximum_of float_le (combine (Max_Reduce float_lt) x y) x y \<and>
      is_minimum_of float_le (combine (Min_Reduce float_gt) x y) x y"
    unfolding float_isnan_def float_le_def float_lt_def float_gt_def
    using fp_Max_maximum [of float_inf x y] fp_Min_minimum [of float_inf x y] by blast
  have db: "\<not> double_isnan u \<and> \<not> double_isnan v \<longrightarrow>
      is_maximum_of double_le (combine (Max_Reduce double_lt) u v) u v \<and>
      is_minimum_of double_le (combine (Min_Reduce double_gt) u v) u v"
    unfolding double_isnan_def double_le_def double_lt_def double_gt_def
    using fp_Max_maximum [of double_inf u v] fp_Min_minimum [of double_inf u v] by blast
  have fn: "float_isnan x \<or> float_isnan y \<longrightarrow>
      combine (Max_Reduce float_lt) x y = x \<and> combine (Min_Reduce float_gt) x y = x"
    unfolding float_isnan_def float_lt_def float_gt_def
    using fp_nan_keeps_dst [of float_inf x y] by blast
  have dn: "double_isnan u \<or> double_isnan v \<longrightarrow>
      combine (Max_Reduce double_lt) u v = u \<and> combine (Min_Reduce double_gt) u v = u"
    unfolding double_isnan_def double_lt_def double_gt_def
    using fp_nan_keeps_dst [of double_inf u v] by blast
  have vl: "float_lt x y =
     (\<not> float_isnan x \<and> \<not> float_isnan y \<and> fp_scaled 23 x < fp_scaled 23 y)"
    "float_le x y =
     (\<not> float_isnan x \<and> \<not> float_isnan y \<and> fp_scaled 23 x \<le> fp_scaled 23 y)"
    "double_lt u v =
     (\<not> double_isnan u \<and> \<not> double_isnan v \<and> fp_scaled 52 u < fp_scaled 52 v)"
    "double_le u v =
     (\<not> double_isnan u \<and> \<not> double_isnan v \<and> fp_scaled 52 u \<le> fp_scaled 52 v)"
    unfolding float_lt_def float_le_def double_lt_def double_le_def float_isnan_def
      double_isnan_def
    by (rule fp_lt_value fp_le_value)+
  from ops flips mx mm fl db fn dn vl show ?thesis by blast
qed

text \<open>
  An instance of the amended C5: \<open>1.0\<close> and \<open>2.0\<close> are not NaN, and \<open>Max\<close> of
  \<open>dst = 1.0\<close> and \<open>src = 2.0\<close> leaves \<open>2.0\<close> in \<open>dst\<close>, their maximum; \<open>Min\<close>
  of \<open>dst = 1.0\<close> and \<open>src = -1.0\<close> leaves \<open>-1.0\<close>; \<open>Max\<close> of the \<open>int\<close>
  values \<open>-1\<close> and \<open>1\<close> leaves \<open>1\<close>.
\<close>

theorem C5_operator_semantics_witness:
  "\<not> float_isnan 0x3F800000 \<and> \<not> float_isnan 0x40000000 \<and>
   dst (Max_Reduce float_lt \<lparr>dst = 0x3F800000, src = 0x40000000\<rparr>) = 0x40000000 \<and>
   is_maximum_of float_le (combine (Max_Reduce float_lt) 0x3F800000 0x40000000)
     0x3F800000 0x40000000 \<and>
   dst (Min_Reduce float_gt \<lparr>dst = 0x3F800000, src = 0xBF800000\<rparr>) = 0xBF800000 \<and>
   sint (combine (Max_Reduce signed_lt) (- 1 :: 32 word) 1) = 1"
proof -
  have n: "\<not> float_isnan 0x3F800000 \<and> \<not> float_isnan 0x40000000"
    by (simp add: fp_eval)
  note t = C5_operator_semantics [where a = "- 1 :: 32 word" and b = 1 and x = "0x3F800000"
      and y = "0x40000000" and u = 0 and v = 0 and lt = float_lt and gt = float_gt
      and add = float_plus and bor = int_or and r = "\<lparr>dst = 0x3F800000, src = 0x40000000\<rparr>"]
  note t2 = C5_operator_semantics [where a = "- 1 :: 32 word" and b = 1 and x = "0x3F800000"
      and y = "0x40000000" and u = 0 and v = 0 and lt = float_lt and gt = float_gt
      and add = float_plus and bor = int_or and r = "\<lparr>dst = 0x3F800000, src = 0xBF800000\<rparr>"]
  from t have a: "dst (Max_Reduce float_lt \<lparr>dst = 0x3F800000, src = 0x40000000\<rparr>) =
      (if float_lt (dst \<lparr>dst = 0x3F800000, src = 0x40000000 :: 32 word\<rparr>)
            (src \<lparr>dst = 0x3F800000 :: 32 word, src = 0x40000000\<rparr>)
       then src \<lparr>dst = 0x3F800000 :: 32 word, src = 0x40000000\<rparr>
       else dst \<lparr>dst = 0x3F800000, src = 0x40000000 :: 32 word\<rparr>)"
    by blast
  from t n have b: "is_maximum_of float_le (combine (Max_Reduce float_lt) 0x3F800000 0x40000000)
     0x3F800000 0x40000000"
    by blast
  from t2 have c: "dst (Min_Reduce float_gt \<lparr>dst = 0x3F800000, src = 0xBF800000\<rparr>) =
      (if float_gt (dst \<lparr>dst = 0x3F800000, src = 0xBF800000 :: 32 word\<rparr>)
            (src \<lparr>dst = 0x3F800000 :: 32 word, src = 0xBF800000\<rparr>)
       then src \<lparr>dst = 0x3F800000 :: 32 word, src = 0xBF800000\<rparr>
       else dst \<lparr>dst = 0x3F800000, src = 0xBF800000 :: 32 word\<rparr>)"
    by blast
  from t have d: "sint (combine (Max_Reduce signed_lt) (- 1 :: 32 word) 1) =
      max (sint (- 1 :: 32 word)) (sint (1 :: 32 word))"
    by blast
  have a': "dst (Max_Reduce float_lt \<lparr>dst = 0x3F800000, src = 0x40000000\<rparr>) = 0x40000000"
    unfolding a by (simp add: fp_eval)
  have c': "dst (Min_Reduce float_gt \<lparr>dst = 0x3F800000, src = 0xBF800000\<rparr>) = 0xBF800000"
    unfolding c by (simp add: fp_eval)
  from d have d': "sint (combine (Max_Reduce signed_lt) (- 1 :: 32 word) 1) = 1" by simp
  from n a' b c' d' show ?thesis by blast
qed

lemma sint_inj: "sint (a :: 'n::len word) = sint b \<Longrightarrow> a = b"
  by (rule signed_word_eqI)

lemma signed_assoc_comm:
  "associative (combine (Max_Reduce (signed_lt :: 'n::len word \<Rightarrow> 'n word \<Rightarrow> bool)))"
  "commutative (combine (Max_Reduce (signed_lt :: 'n::len word \<Rightarrow> 'n word \<Rightarrow> bool)))"
  "associative (combine (Min_Reduce (signed_gt :: 'n::len word \<Rightarrow> 'n word \<Rightarrow> bool)))"
  "commutative (combine (Min_Reduce (signed_gt :: 'n::len word \<Rightarrow> 'n word \<Rightarrow> bool)))"
  by (auto simp: associative_def commutative_def combine_Max combine_Min signed_lt_def
      signed_gt_def intro: sint_inj)

lemma unsigned_assoc_comm:
  "associative (combine (Max_Reduce (unsigned_lt :: 'n::len word \<Rightarrow> 'n word \<Rightarrow> bool)))"
  "commutative (combine (Max_Reduce (unsigned_lt :: 'n::len word \<Rightarrow> 'n word \<Rightarrow> bool)))"
  "associative (combine (Min_Reduce (unsigned_gt :: 'n::len word \<Rightarrow> 'n word \<Rightarrow> bool)))"
  "commutative (combine (Min_Reduce (unsigned_gt :: 'n::len word \<Rightarrow> 'n word \<Rightarrow> bool)))"
  by (auto simp: associative_def commutative_def combine_Max combine_Min unsigned_lt_def
      unsigned_gt_def)

lemma sum_or_assoc_comm:
  "associative (combine (Sum_Reduce (int_plus :: 'n::len word \<Rightarrow> 'n word \<Rightarrow> 'n word)))"
  "commutative (combine (Sum_Reduce (int_plus :: 'n::len word \<Rightarrow> 'n word \<Rightarrow> 'n word)))"
  "associative (combine (BitOR_Reduce (int_or :: 'n::len word \<Rightarrow> 'n word \<Rightarrow> 'n word)))"
  "commutative (combine (BitOR_Reduce (int_or :: 'n::len word \<Rightarrow> 'n word \<Rightarrow> 'n word)))"
  by (auto simp: associative_def commutative_def combine_Sum combine_BitOR int_plus_def
      int_or_def ac_simps)

lemma fp_Max_laws:
  assumes "\<not> fp_nan p x" "\<not> fp_nan p y" "\<not> fp_nan p z"
  shows "fp_eq p (combine (Max_Reduce (fp_lt p)) (combine (Max_Reduce (fp_lt p)) x y) z)
           (combine (Max_Reduce (fp_lt p)) x (combine (Max_Reduce (fp_lt p)) y z))"
    and "fp_eq p (combine (Max_Reduce (fp_lt p)) x y) (combine (Max_Reduce (fp_lt p)) y x)"
  using assms by (auto simp: combine_Max fp_lt_def fp_eq_def)

lemma fp_Min_laws:
  assumes "\<not> fp_nan p x" "\<not> fp_nan p y" "\<not> fp_nan p z"
  shows "fp_eq p (combine (Min_Reduce (fp_gt p)) (combine (Min_Reduce (fp_gt p)) x y) z)
           (combine (Min_Reduce (fp_gt p)) x (combine (Min_Reduce (fp_gt p)) y z))"
    and "fp_eq p (combine (Min_Reduce (fp_gt p)) x y) (combine (Min_Reduce (fp_gt p)) y x)"
  using assms by (auto simp: combine_Min fp_gt_def fp_eq_def)

lemmas fp_add_eval = float_plus_def double_plus_def fp_add_def fp_scaled_def fp_scaled_mag_def
  fp_units_def fp_round_def fp_pack_def fp_quiet_def fp_nan_def fp_mag_def fp_neg_def float_inf_def
  double_inf_def Let_def bitlen.simps

lemma fp_add_commute:
  assumes "\<not> fp_nan pinf a" "\<not> fp_nan pinf b"
  shows "fp_add p pinf a b = fp_add p pinf b a"
proof (cases "fp_mag a = pinf")
  case True
  note A = this
  show ?thesis
  proof (cases "fp_mag b = pinf")
    case True
    with A assms show ?thesis
      by (cases "fp_neg a = fp_neg b") (simp_all add: fp_add_def eq_commute [of "fp_neg b"])
  next
    case False
    with A assms show ?thesis by (simp add: fp_add_def)
  qed
next
  case False
  note A = this
  show ?thesis
  proof (cases "fp_mag b = pinf")
    case True
    with A assms show ?thesis by (simp add: fp_add_def)
  next
    case False
    with A assms show ?thesis by (simp add: fp_add_def Let_def add.commute conj_commute)
  qed
qed

lemma fp_quiet_nan: "fp_nan pinf a \<Longrightarrow> fp_nan pinf (fp_quiet p a)"
  unfolding fp_nan_def fp_quiet_def fp_mag_def
  by (metis (mono_tags, lifting) dual_order.strict_trans le_word_or2 take_bit_or
      word_le_less_eq)

lemma fp_add_nan:
  assumes "fp_nan pinf a \<or> fp_nan pinf b"
  shows "fp_nan pinf (fp_add p pinf a b)"
  using assms by (auto simp: fp_add_def fp_quiet_nan)

text \<open>
  C6, as stated, fails on \<open>float\<close>. With a NaN (\<open>0x7FC00000\<close>) and \<open>1.0\<close>
  (\<open>0x3F800000\<close>), \<open>Max::Reduce\<close> and \<open>Min::Reduce\<close> keep whichever operand is in
  \<open>dst\<close>, since both comparisons are false: neither is commutative there. With plus
  zero and minus zero (\<open>0x80000000\<close>) \<open>Max::Reduce\<close> keeps \<open>dst\<close> as well, so that
  the two orders give different patterns, though equal values. And \<open>Sum\<close> is not
  associative: with \<open>a = 16777216.0\<close> (\<open>0x4B800000\<close>) and \<open>b = c = 1.0\<close>, the sum
  \<open>a + b\<close> rounds back to \<open>a\<close> and \<open>(a + b) + c\<close> is \<open>a\<close>, while \<open>a + (b + c)\<close> is
  \<open>16777218.0\<close> (\<open>0x4B800001\<close>).
\<close>

theorem C6_counterexample:
  "combine (Max_Reduce float_lt) 0x7FC00000 0x3F800000 \<noteq>
     combine (Max_Reduce float_lt) 0x3F800000 0x7FC00000 \<and>
   combine (Min_Reduce float_gt) 0x7FC00000 0x3F800000 \<noteq>
     combine (Min_Reduce float_gt) 0x3F800000 0x7FC00000 \<and>
   combine (Max_Reduce float_lt) 0 0x80000000 \<noteq>
     combine (Max_Reduce float_lt) 0x80000000 0 \<and>
   combine (Sum_Reduce float_plus) (combine (Sum_Reduce float_plus) 0x4B800000 0x3F800000)
       0x3F800000 = 0x4B800000 \<and>
   combine (Sum_Reduce float_plus) 0x4B800000
       (combine (Sum_Reduce float_plus) 0x3F800000 0x3F800000) = 0x4B800001 \<and>
   combine (Sum_Reduce float_plus) (combine (Sum_Reduce float_plus) 0x4B800000 0x3F800000)
       0x3F800000 \<noteq>
     combine (Sum_Reduce float_plus) 0x4B800000
       (combine (Sum_Reduce float_plus) 0x3F800000 0x3F800000)"
proof -
  have m: "combine (Max_Reduce float_lt) 0x7FC00000 0x3F800000 \<noteq>
     combine (Max_Reduce float_lt) 0x3F800000 0x7FC00000"
    "combine (Min_Reduce float_gt) 0x7FC00000 0x3F800000 \<noteq>
     combine (Min_Reduce float_gt) 0x3F800000 0x7FC00000"
    "combine (Max_Reduce float_lt) 0 0x80000000 \<noteq>
     combine (Max_Reduce float_lt) 0x80000000 0"
    by (simp_all add: combine_Max combine_Min fp_eval)
  have s1: "float_plus 0x4B800000 0x3F800000 = 0x4B800000"
    by (simp add: fp_add_eval)
  have s2: "float_plus 0x3F800000 0x3F800000 = 0x40000000"
    by (simp add: fp_add_eval)
  have s3: "float_plus 0x4B800000 0x40000000 = 0x4B800001"
    by (simp add: fp_add_eval)
  have l: "combine (Sum_Reduce float_plus)
      (combine (Sum_Reduce float_plus) 0x4B800000 0x3F800000) 0x3F800000 = 0x4B800000"
    by (simp add: combine_Sum s1)
  have r: "combine (Sum_Reduce float_plus) 0x4B800000
      (combine (Sum_Reduce float_plus) 0x3F800000 0x3F800000) = 0x4B800001"
    by (simp add: combine_Sum s2 s3)
  have "(0x4B800000 :: 32 word) \<noteq> 0x4B800001" by simp
  with l r have ne: "combine (Sum_Reduce float_plus)
      (combine (Sum_Reduce float_plus) 0x4B800000 0x3F800000) 0x3F800000 \<noteq>
     combine (Sum_Reduce float_plus) 0x4B800000
       (combine (Sum_Reduce float_plus) 0x3F800000 0x3F800000)"
    by simp
  from m l r ne show ?thesis by blast
qed

text \<open>
  C6, amended. On the integer types (signed and unsigned, of any width) the combine
  functions of \<open>Max\<close>, \<open>Min\<close>, \<open>Sum\<close> (with wrap-around) and \<open>BitOR\<close> are
  associative and commutative. On \<open>float\<close> and \<open>double\<close> (where \<open>BitOR\<close> does not
  apply), for operands that are not NaN: \<open>Max\<close> and \<open>Min\<close> are associative and
  commutative, the two results being equal for the \<open>==\<close> of the type (which does not
  tell minus zero from plus zero), and \<open>Sum\<close> is commutative, the two results being
  the same pattern; \<open>Sum\<close> is not associative. With a NaN operand \<open>Sum\<close> gives a
  NaN in either order.
\<close>

theorem C6_assoc_comm_amended:
  fixes x y z :: "32 word" and u v w :: "64 word"
  shows
  "associative (combine (Max_Reduce (signed_lt :: 'n::len word \<Rightarrow> 'n word \<Rightarrow> bool))) \<and>
   commutative (combine (Max_Reduce (signed_lt :: 'n word \<Rightarrow> 'n word \<Rightarrow> bool))) \<and>
   associative (combine (Min_Reduce (signed_gt :: 'n word \<Rightarrow> 'n word \<Rightarrow> bool))) \<and>
   commutative (combine (Min_Reduce (signed_gt :: 'n word \<Rightarrow> 'n word \<Rightarrow> bool))) \<and>
   associative (combine (Max_Reduce (unsigned_lt :: 'n word \<Rightarrow> 'n word \<Rightarrow> bool))) \<and>
   commutative (combine (Max_Reduce (unsigned_lt :: 'n word \<Rightarrow> 'n word \<Rightarrow> bool))) \<and>
   associative (combine (Min_Reduce (unsigned_gt :: 'n word \<Rightarrow> 'n word \<Rightarrow> bool))) \<and>
   commutative (combine (Min_Reduce (unsigned_gt :: 'n word \<Rightarrow> 'n word \<Rightarrow> bool))) \<and>
   associative (combine (Sum_Reduce (int_plus :: 'n word \<Rightarrow> 'n word \<Rightarrow> 'n word))) \<and>
   commutative (combine (Sum_Reduce (int_plus :: 'n word \<Rightarrow> 'n word \<Rightarrow> 'n word))) \<and>
   associative (combine (BitOR_Reduce (int_or :: 'n word \<Rightarrow> 'n word \<Rightarrow> 'n word))) \<and>
   commutative (combine (BitOR_Reduce (int_or :: 'n word \<Rightarrow> 'n word \<Rightarrow> 'n word))) \<and>
   (\<not> float_isnan x \<and> \<not> float_isnan y \<and> \<not> float_isnan z \<longrightarrow>
      float_eq (combine (Max_Reduce float_lt) (combine (Max_Reduce float_lt) x y) z)
        (combine (Max_Reduce float_lt) x (combine (Max_Reduce float_lt) y z)) \<and>
      float_eq (combine (Max_Reduce float_lt) x y) (combine (Max_Reduce float_lt) y x) \<and>
      float_eq (combine (Min_Reduce float_gt) (combine (Min_Reduce float_gt) x y) z)
        (combine (Min_Reduce float_gt) x (combine (Min_Reduce float_gt) y z)) \<and>
      float_eq (combine (Min_Reduce float_gt) x y) (combine (Min_Reduce float_gt) y x)) \<and>
   (\<not> double_isnan u \<and> \<not> double_isnan v \<and> \<not> double_isnan w \<longrightarrow>
      double_eq (combine (Max_Reduce double_lt) (combine (Max_Reduce double_lt) u v) w)
        (combine (Max_Reduce double_lt) u (combine (Max_Reduce double_lt) v w)) \<and>
      double_eq (combine (Max_Reduce double_lt) u v) (combine (Max_Reduce double_lt) v u) \<and>
      double_eq (combine (Min_Reduce double_gt) (combine (Min_Reduce double_gt) u v) w)
        (combine (Min_Reduce double_gt) u (combine (Min_Reduce double_gt) v w)) \<and>
      double_eq (combine (Min_Reduce double_gt) u v) (combine (Min_Reduce double_gt) v u)) \<and>
   (\<not> float_isnan x \<and> \<not> float_isnan y \<longrightarrow>
      combine (Sum_Reduce float_plus) x y = combine (Sum_Reduce float_plus) y x) \<and>
   (\<not> double_isnan u \<and> \<not> double_isnan v \<longrightarrow>
      combine (Sum_Reduce double_plus) u v = combine (Sum_Reduce double_plus) v u) \<and>
   (float_isnan x \<or> float_isnan y \<longrightarrow>
      float_isnan (combine (Sum_Reduce float_plus) x y) \<and>
      float_isnan (combine (Sum_Reduce float_plus) y x)) \<and>
   (double_isnan u \<or> double_isnan v \<longrightarrow>
      double_isnan (combine (Sum_Reduce double_plus) u v) \<and>
      double_isnan (combine (Sum_Reduce double_plus) v u))"
proof -
  have fl: "\<not> float_isnan x \<and> \<not> float_isnan y \<and> \<not> float_isnan z \<longrightarrow>
      float_eq (combine (Max_Reduce float_lt) (combine (Max_Reduce float_lt) x y) z)
        (combine (Max_Reduce float_lt) x (combine (Max_Reduce float_lt) y z)) \<and>
      float_eq (combine (Max_Reduce float_lt) x y) (combine (Max_Reduce float_lt) y x) \<and>
      float_eq (combine (Min_Reduce float_gt) (combine (Min_Reduce float_gt) x y) z)
        (combine (Min_Reduce float_gt) x (combine (Min_Reduce float_gt) y z)) \<and>
      float_eq (combine (Min_Reduce float_gt) x y) (combine (Min_Reduce float_gt) y x)"
    unfolding float_isnan_def float_eq_def float_lt_def float_gt_def
    using fp_Max_laws [of float_inf x y z] fp_Min_laws [of float_inf x y z] by blast
  have db: "\<not> double_isnan u \<and> \<not> double_isnan v \<and> \<not> double_isnan w \<longrightarrow>
      double_eq (combine (Max_Reduce double_lt) (combine (Max_Reduce double_lt) u v) w)
        (combine (Max_Reduce double_lt) u (combine (Max_Reduce double_lt) v w)) \<and>
      double_eq (combine (Max_Reduce double_lt) u v) (combine (Max_Reduce double_lt) v u) \<and>
      double_eq (combine (Min_Reduce double_gt) (combine (Min_Reduce double_gt) u v) w)
        (combine (Min_Reduce double_gt) u (combine (Min_Reduce double_gt) v w)) \<and>
      double_eq (combine (Min_Reduce double_gt) u v) (combine (Min_Reduce double_gt) v u)"
    unfolding double_isnan_def double_eq_def double_lt_def double_gt_def
    using fp_Max_laws [of double_inf u v w] fp_Min_laws [of double_inf u v w] by blast
  have fs: "\<not> float_isnan x \<and> \<not> float_isnan y \<longrightarrow>
      combine (Sum_Reduce float_plus) x y = combine (Sum_Reduce float_plus) y x"
    unfolding float_isnan_def float_plus_def combine_Sum
    using fp_add_commute [of float_inf x y 23] by blast
  have ds: "\<not> double_isnan u \<and> \<not> double_isnan v \<longrightarrow>
      combine (Sum_Reduce double_plus) u v = combine (Sum_Reduce double_plus) v u"
    unfolding double_isnan_def double_plus_def combine_Sum
    using fp_add_commute [of double_inf u v 52] by blast
  have fn: "float_isnan x \<or> float_isnan y \<longrightarrow>
      float_isnan (combine (Sum_Reduce float_plus) x y) \<and>
      float_isnan (combine (Sum_Reduce float_plus) y x)"
    unfolding float_isnan_def float_plus_def combine_Sum
    using fp_add_nan [of float_inf x y 23] fp_add_nan [of float_inf y x 23] by blast
  have dn: "double_isnan u \<or> double_isnan v \<longrightarrow>
      double_isnan (combine (Sum_Reduce double_plus) u v) \<and>
      double_isnan (combine (Sum_Reduce double_plus) v u)"
    unfolding double_isnan_def double_plus_def combine_Sum
    using fp_add_nan [of double_inf u v 52] fp_add_nan [of double_inf v u 52] by blast
  from signed_assoc_comm [where 'n = 'n] unsigned_assoc_comm [where 'n = 'n]
    sum_or_assoc_comm [where 'n = 'n] fl db fs ds fn dn
  show ?thesis by blast
qed

text \<open>
  An instance of the amended C6: the \<open>float\<close> and \<open>double\<close> values \<open>1.0\<close>, \<open>2.0\<close>
  and \<open>3.0\<close> are not NaN; \<open>Max\<close> gives \<open>3.0\<close> in either association, and the sum
  of \<open>1.0\<close> and \<open>2.0\<close> is \<open>3.0\<close> in either order.
\<close>

theorem C6_assoc_comm_amended_witness:
  "\<not> float_isnan 0x3F800000 \<and> \<not> float_isnan 0x40000000 \<and> \<not> float_isnan 0x40400000 \<and>
   float_eq
     (combine (Max_Reduce float_lt) (combine (Max_Reduce float_lt) 0x3F800000 0x40000000)
        0x40400000)
     (combine (Max_Reduce float_lt) 0x3F800000
        (combine (Max_Reduce float_lt) 0x40000000 0x40400000)) \<and>
   combine (Sum_Reduce float_plus) 0x3F800000 0x40000000 =
     combine (Sum_Reduce float_plus) 0x40000000 0x3F800000 \<and>
   combine (Sum_Reduce float_plus) 0x40000000 0x3F800000 = 0x40400000 \<and>
   \<not> double_isnan 0x3FF0000000000000 \<and> \<not> double_isnan 0x4000000000000000 \<and>
   \<not> double_isnan 0x4008000000000000 \<and>
   double_eq (combine (Min_Reduce double_gt) 0x3FF0000000000000 0x4000000000000000)
     (combine (Min_Reduce double_gt) 0x4000000000000000 0x3FF0000000000000)"
proof -
  have f: "\<not> float_isnan 0x3F800000 \<and> \<not> float_isnan 0x40000000 \<and> \<not> float_isnan 0x40400000"
    by (simp add: fp_eval)
  have d: "\<not> double_isnan 0x3FF0000000000000 \<and> \<not> double_isnan 0x4000000000000000 \<and>
    \<not> double_isnan 0x4008000000000000"
    by (simp add: fp_eval)
  have v: "combine (Sum_Reduce float_plus) 0x40000000 0x3F800000 = 0x40400000"
    by (simp add: combine_Sum fp_add_eval)
  from f d v C6_assoc_comm_amended [where x = "0x3F800000" and y = "0x40000000"
      and z = "0x40400000" and u = "0x3FF0000000000000" and v = "0x4000000000000000"
      and w = "0x4008000000000000"]
  show ?thesis by blast
qed

section \<open>Facts about the bulk reducer and the typed entry point\<close>

lemma Reducer_loop_nth:
  "len \<le> int (length (src_buf m)) \<Longrightarrow> len \<le> int (length (dst_buf m)) \<Longrightarrow>
   \<exists>d'. Reducer_loop R len i m = Inr (m\<lparr>dst_buf := d'\<rparr>) \<and> length d' = length (dst_buf m) \<and>
     (\<forall>j < length d'. d' ! j =
        (if i \<le> j \<and> int j < len then combine R (dst_buf m ! j) (src_buf m ! j)
         else dst_buf m ! j))"
proof (induction R len i m rule: Reducer_loop.induct)
  case (1 R len i m)
  show ?case
  proof (cases "int i < len")
    case False
    then have "Reducer_loop R len i m = Inr (m\<lparr>dst_buf := dst_buf m\<rparr>)"
      by (simp add: Reducer_loop.simps [of R len i m])
    with False show ?thesis by (intro exI [of _ "dst_buf m"]) auto
  next
    case True
    let ?m1 = "m\<lparr>dst_buf := (dst_buf m)[i := dst (R \<lparr>dst = dst_buf m ! i, src = src_buf m ! i\<rparr>)]\<rparr>"
    from True "1.prems" have inb: "i < length (dst_buf m) \<and> i < length (src_buf m)" by auto
    from "1.IH" [OF True inb] "1.prems"
    obtain d' where d': "Reducer_loop R len (i + 1) ?m1 = Inr (?m1\<lparr>dst_buf := d'\<rparr>)"
      "length d' = length (dst_buf m)"
      "\<forall>j < length d'. d' ! j =
        (if i + 1 \<le> j \<and> int j < len then combine R (dst_buf ?m1 ! j) (src_buf ?m1 ! j)
         else dst_buf ?m1 ! j)"
      by auto
    have step: "Reducer_loop R len i m = Reducer_loop R len (i + 1) ?m1"
      using True inb by (simp add: Reducer_loop.simps [of R len i m])
    have "\<forall>j < length d'. d' ! j =
        (if i \<le> j \<and> int j < len then combine R (dst_buf m ! j) (src_buf m ! j)
         else dst_buf m ! j)"
    proof (intro allI impI)
      fix j assume j: "j < length d'"
      show "d' ! j = (if i \<le> j \<and> int j < len then combine R (dst_buf m ! j) (src_buf m ! j)
         else dst_buf m ! j)"
      proof (cases "j = i")
        case True
        with d'(3) j inb \<open>int i < len\<close> show ?thesis by (simp add: combine_def)
      next
        case False
        with d'(3) j show ?thesis by (auto simp: nth_list_update)
      qed
    qed
    with d'(1,2) step show ?thesis by auto
  qed
qed

lemma Reducer_closed:
  assumes "len \<le> int (length s)" "len \<le> int (length d)"
  shows "Reducer R s d len dt =
     Inr \<lparr>src_buf = s,
          dst_buf = map (\<lambda>(x, y). combine R x y) (zip (take (nat len) d) (take (nat len) s))
                    @ drop (nat len) d\<rparr>"
proof -
  let ?m = "\<lparr>src_buf = s, dst_buf = d\<rparr>"
  from Reducer_loop_nth [of len ?m R 0] assms
  obtain d' where d': "Reducer_loop R len 0 ?m = Inr (?m\<lparr>dst_buf := d'\<rparr>)"
    "length d' = length d"
    "\<forall>j < length d'. d' ! j = (if int j < len then combine R (d ! j) (s ! j) else d ! j)"
    by auto
  have "d' = map (\<lambda>(x, y). combine R x y) (zip (take (nat len) d) (take (nat len) s))
                    @ drop (nat len) d" (is "_ = ?r")
  proof (rule nth_equalityI)
    show "length d' = length ?r" using d'(2) assms by auto
  next
    fix j assume j: "j < length d'"
    show "d' ! j = ?r ! j"
    proof (cases "int j < len")
      case True
      with j d'(2) assms have "j < nat len" "j < length d" "j < length s" by auto
      with d'(3) j True show ?thesis by (simp add: nth_append)
    next
      case False
      with j d'(2) assms have "nat len \<le> j" by auto
      with d'(3) j False d'(2) assms show ?thesis by (auto simp: nth_append min_def)
    qed
  qed
  with d'(1) show ?thesis by (simp add: Reducer_def)
qed

lemma Reducer_idem:
  assumes "\<And>x. combine R x x = x" "len \<le> int (length d)"
  shows "Reducer R d d len dt = Inr \<lparr>src_buf = d, dst_buf = d\<rparr>"
proof -
  have "map (\<lambda>(x, y). combine R x y) (zip (take (nat len) d) (take (nat len) d)) = take (nat len) d"
    using assms(1) by (simp add: zip_same_conv_map comp_def map_idI)
  with Reducer_closed [OF assms(2) assms(2), of R dt] show ?thesis by simp
qed


text \<open>
  C3. With \<open>len\<close> elements or more in both buffers, \<open>op::Reducer<OP, DType>\<close>
  returns with \<open>src\<close> as it was and with \<open>dst\<close> holding, at every index below
  \<open>len\<close>, what \<open>OP::Reduce\<close> leaves in \<open>dst[i]\<close> when called on the old \<open>dst[i]\<close>
  and \<open>src[i]\<close>, and its old element at every other index (for \<open>len \<le> 0\<close> nothing
  changes). The typed \<open>Allreduce<OP, DType>\<close> hands the engine, whichever it is,
  the size \<open>sizeof(DType)\<close>, the count, this function, the tag \<open>GetType<DType>()\<close>
  and the tag \<open>OP::kType\<close>, with the prepare function and the buffer; the four
  operator structs carry the tags \<open>kMax\<close>, \<open>kMin\<close>, \<open>kSum\<close> and \<open>kBitwiseOR\<close>.
\<close>

theorem C3_Reducer_zips_operator:
  "(len \<le> int (length s) \<and> len \<le> int (length d) \<longrightarrow>
      Reducer (Reduce OP) s d len dt =
        Inr \<lparr>src_buf = s,
             dst_buf = map (\<lambda>(x, y). combine (Reduce OP) x y)
                         (zip (take (nat len) d) (take (nat len) s)) @ drop (nat len) d\<rparr> \<and>
      (\<exists>d'. Reducer (Reduce OP) s d len dt = Inr \<lparr>src_buf = s, dst_buf = d'\<rparr> \<and>
         length d' = length d \<and>
         (\<forall>i < length d. d' ! i =
            (if int i < len then combine (Reduce OP) (d ! i) (s ! i) else d ! i)))) \<and>
   Allreduce engine OP DType cnt prepare m =
     engine (sizeof DType) cnt (Reducer (Reduce OP)) (GetType DType) (kType OP)
       prepare m \<and>
   Allreduce recording_engine OP DType cnt prepare m =
     \<lparr>arg_type_nbytes = sizeof DType, arg_count = cnt, arg_red = Reducer (Reduce OP),
      arg_dtype = GetType DType, arg_op = kType OP\<rparr> \<and>
   kType (Max_op lt) = kMax \<and> Reduce (Max_op lt) = Max_Reduce lt \<and>
   kType (Min_op gt) = kMin \<and> Reduce (Min_op gt) = Min_Reduce gt \<and>
   kType (Sum_op add) = kSum \<and> Reduce (Sum_op add) = Sum_Reduce add \<and>
   kType (BitOR_op bor) = kBitwiseOR \<and> Reduce (BitOR_op bor) = BitOR_Reduce bor"
proof -
  have red: "len \<le> int (length s) \<and> len \<le> int (length d) \<longrightarrow>
      Reducer (Reduce OP) s d len dt =
        Inr \<lparr>src_buf = s,
             dst_buf = map (\<lambda>(x, y). combine (Reduce OP) x y)
                         (zip (take (nat len) d) (take (nat len) s)) @ drop (nat len) d\<rparr> \<and>
      (\<exists>d'. Reducer (Reduce OP) s d len dt = Inr \<lparr>src_buf = s, dst_buf = d'\<rparr> \<and>
         length d' = length d \<and>
         (\<forall>i < length d. d' ! i =
            (if int i < len then combine (Reduce OP) (d ! i) (s ! i) else d ! i)))"
  proof (intro impI conjI)
    assume b: "len \<le> int (length s) \<and> len \<le> int (length d)"
    then show "Reducer (Reduce OP) s d len dt =
        Inr \<lparr>src_buf = s,
             dst_buf = map (\<lambda>(x, y). combine (Reduce OP) x y)
                         (zip (take (nat len) d) (take (nat len) s)) @ drop (nat len) d\<rparr>"
      by (simp add: Reducer_closed)
    let ?m = "\<lparr>src_buf = s, dst_buf = d\<rparr>"
    from Reducer_loop_nth [of len ?m "Reduce OP" 0] b
    show "\<exists>d'. Reducer (Reduce OP) s d len dt = Inr \<lparr>src_buf = s, dst_buf = d'\<rparr> \<and>
         length d' = length d \<and>
         (\<forall>i < length d. d' ! i =
            (if int i < len then combine (Reduce OP) (d ! i) (s ! i) else d ! i))"
      by (auto simp: Reducer_def)
  qed
  have eng: "Allreduce engine OP DType cnt prepare m =
     engine (sizeof DType) cnt (Reducer (Reduce OP)) (GetType DType) (kType OP)
       prepare m"
    by (simp add: Allreduce_def)
  have rec: "Allreduce recording_engine OP DType cnt prepare m =
     \<lparr>arg_type_nbytes = sizeof DType, arg_count = cnt, arg_red = Reducer (Reduce OP),
      arg_dtype = GetType DType, arg_op = kType OP\<rparr>"
    by (simp add: Allreduce_def recording_engine_def)
  have tags: "kType (Max_op lt) = kMax \<and> Reduce (Max_op lt) = Max_Reduce lt \<and>
   kType (Min_op gt) = kMin \<and> Reduce (Min_op gt) = Min_Reduce gt \<and>
   kType (Sum_op add) = kSum \<and> Reduce (Sum_op add) = Sum_Reduce add \<and>
   kType (BitOR_op bor) = kBitwiseOR \<and> Reduce (BitOR_op bor) = BitOR_Reduce bor"
    by (simp add: Max_op_def Min_op_def Sum_op_def BitOR_op_def)
  from red eng rec tags show ?thesis by blast
qed

text \<open>
  An instance of C3: \<open>Reducer<Sum, unsigned>\<close> on \<open>src = {3, 1, 9}\<close> and
  \<open>dst = {2, 5, 7}\<close> with \<open>len = 2\<close> leaves \<open>dst = {5, 6, 7}\<close>.
\<close>

theorem C3_Reducer_zips_operator_witness:
  "(2 :: int) \<le> int (length [3, 1, 9 :: 32 word]) \<and>
   (2 :: int) \<le> int (length [2, 5, 7 :: 32 word]) \<and>
   Reducer (Reduce (Sum_op int_plus)) [3, 1, 9 :: 32 word] [2, 5, 7] 2 \<lparr>type_size = 4\<rparr> =
     Inr \<lparr>src_buf = [3, 1, 9], dst_buf = [5, 6, 7]\<rparr>"
proof -
  have b: "(2 :: int) \<le> int (length [3, 1, 9 :: 32 word]) \<and>
      (2 :: int) \<le> int (length [2, 5, 7 :: 32 word])"
    by simp
  have n: "nat 2 = Suc (Suc 0)" by simp
  from b C3_Reducer_zips_operator [where len = 2 and s = "[3, 1, 9 :: 32 word]"
      and d = "[2, 5, 7]" and OP = "Sum_op int_plus" and dt = "\<lparr>type_size = 4\<rparr>"]
  have "Reducer (Reduce (Sum_op int_plus)) [3, 1, 9 :: 32 word] [2, 5, 7] 2 \<lparr>type_size = 4\<rparr> =
        Inr \<lparr>src_buf = [3, 1, 9],
             dst_buf = map (\<lambda>(x, y). combine (Reduce (Sum_op int_plus)) x y)
                         (zip (take (nat 2) [2, 5, 7]) (take (nat 2) [3, 1, 9]))
                       @ drop (nat 2) [2, 5, 7]\<rparr>"
    by blast
  then show ?thesis
    by (simp add: n Sum_op_def combine_Sum int_plus_def)
qed

text \<open>
  C9. \<open>Max\<close>, \<open>Min\<close> and \<open>BitOR\<close> are idempotent on every scalar type they apply
  to (\<open>BitOR\<close>: the integer types), so \<open>op::Reducer\<close> with a source buffer whose
  contents equal the destination buffer returns the destination as it was. \<open>Sum\<close> of
  a value with itself is \<open>x + x\<close>, which is not \<open>x\<close> at \<open>x = 1\<close>: reducing the
  one-element buffer \<open>{1}\<close> with itself does not return it.
\<close>

theorem C9_idempotent_operators:
  fixes a :: "'n::len word" and x :: "32 word" and u :: "64 word"
    and d :: "'n word list" and fd :: "32 word list" and dd :: "64 word list"
  shows
  "combine (Max_Reduce signed_lt) a a = a \<and>
   combine (Max_Reduce unsigned_lt) a a = a \<and>
   combine (Max_Reduce float_lt) x x = x \<and>
   combine (Max_Reduce double_lt) u u = u \<and>
   combine (Min_Reduce signed_gt) a a = a \<and>
   combine (Min_Reduce unsigned_gt) a a = a \<and>
   combine (Min_Reduce float_gt) x x = x \<and>
   combine (Min_Reduce double_gt) u u = u \<and>
   combine (BitOR_Reduce int_or) a a = a \<and>
   (len \<le> int (length d) \<longrightarrow>
      Reducer (Max_Reduce signed_lt) d d len dt = Inr \<lparr>src_buf = d, dst_buf = d\<rparr> \<and>
      Reducer (Max_Reduce unsigned_lt) d d len dt = Inr \<lparr>src_buf = d, dst_buf = d\<rparr> \<and>
      Reducer (Min_Reduce signed_gt) d d len dt = Inr \<lparr>src_buf = d, dst_buf = d\<rparr> \<and>
      Reducer (Min_Reduce unsigned_gt) d d len dt = Inr \<lparr>src_buf = d, dst_buf = d\<rparr> \<and>
      Reducer (BitOR_Reduce int_or) d d len dt = Inr \<lparr>src_buf = d, dst_buf = d\<rparr>) \<and>
   (len \<le> int (length fd) \<longrightarrow>
      Reducer (Max_Reduce float_lt) fd fd len dt = Inr \<lparr>src_buf = fd, dst_buf = fd\<rparr> \<and>
      Reducer (Min_Reduce float_gt) fd fd len dt = Inr \<lparr>src_buf = fd, dst_buf = fd\<rparr>) \<and>
   (len \<le> int (length dd) \<longrightarrow>
      Reducer (Max_Reduce double_lt) dd dd len dt = Inr \<lparr>src_buf = dd, dst_buf = dd\<rparr> \<and>
      Reducer (Min_Reduce double_gt) dd dd len dt = Inr \<lparr>src_buf = dd, dst_buf = dd\<rparr>) \<and>
   combine (Sum_Reduce int_plus) a a = a + a \<and>
   combine (Sum_Reduce int_plus) (1 :: 'n word) 1 \<noteq> 1 \<and>
   Reducer (Sum_Reduce int_plus) [1 :: 'n word] [1] 1 dt \<noteq> Inr \<lparr>src_buf = [1], dst_buf = [1]\<rparr>"
proof -
  have i1: "combine (Max_Reduce signed_lt) b b = b" "combine (Max_Reduce unsigned_lt) b b = b"
    "combine (Min_Reduce signed_gt) b b = b" "combine (Min_Reduce unsigned_gt) b b = b"
    "combine (BitOR_Reduce int_or) b b = b" for b :: "'n word"
    by (simp_all add: combine_Max combine_Min combine_BitOR signed_lt_def unsigned_lt_def
        signed_gt_def unsigned_gt_def int_or_def)
  have i2: "combine (Max_Reduce float_lt) y y = y" "combine (Min_Reduce float_gt) y y = y"
    for y :: "32 word"
    by (simp_all add: combine_Max combine_Min float_lt_def float_gt_def fp_lt_def fp_gt_def)
  have i3: "combine (Max_Reduce double_lt) v v = v" "combine (Min_Reduce double_gt) v v = v"
    for v :: "64 word"
    by (simp_all add: combine_Max combine_Min double_lt_def double_gt_def fp_lt_def fp_gt_def)
  have r1: "len \<le> int (length d) \<longrightarrow>
      Reducer (Max_Reduce signed_lt) d d len dt = Inr \<lparr>src_buf = d, dst_buf = d\<rparr> \<and>
      Reducer (Max_Reduce unsigned_lt) d d len dt = Inr \<lparr>src_buf = d, dst_buf = d\<rparr> \<and>
      Reducer (Min_Reduce signed_gt) d d len dt = Inr \<lparr>src_buf = d, dst_buf = d\<rparr> \<and>
      Reducer (Min_Reduce unsigned_gt) d d len dt = Inr \<lparr>src_buf = d, dst_buf = d\<rparr> \<and>
      Reducer (BitOR_Reduce int_or) d d len dt = Inr \<lparr>src_buf = d, dst_buf = d\<rparr>"
    using i1 by (simp add: Reducer_idem)
  have r2: "len \<le> int (length fd) \<longrightarrow>
      Reducer (Max_Reduce float_lt) fd fd len dt = Inr \<lparr>src_buf = fd, dst_buf = fd\<rparr> \<and>
      Reducer (Min_Reduce float_gt) fd fd len dt = Inr \<lparr>src_buf = fd, dst_buf = fd\<rparr>"
    using i2 by (simp add: Reducer_idem)
  have r3: "len \<le> int (length dd) \<longrightarrow>
      Reducer (Max_Reduce double_lt) dd dd len dt = Inr \<lparr>src_buf = dd, dst_buf = dd\<rparr> \<and>
      Reducer (Min_Reduce double_gt) dd dd len dt = Inr \<lparr>src_buf = dd, dst_buf = dd\<rparr>"
    using i3 by (simp add: Reducer_idem)
  have s1: "combine (Sum_Reduce int_plus) a a = a + a"
    "combine (Sum_Reduce int_plus) (1 :: 'n word) 1 \<noteq> 1"
    by (simp_all add: combine_Sum int_plus_def)
  have "Reducer (Sum_Reduce int_plus) [1 :: 'n word] [1] 1 dt =
      Inr \<lparr>src_buf = [1], dst_buf = [1 + 1]\<rparr>"
    using Reducer_closed [of 1 "[1 :: 'n word]" "[1]" "Sum_Reduce int_plus" dt]
    by (simp add: combine_Sum int_plus_def)
  then have s2: "Reducer (Sum_Reduce int_plus) [1 :: 'n word] [1] 1 dt \<noteq>
      Inr \<lparr>src_buf = [1], dst_buf = [1]\<rparr>"
    by simp
  from i1 [of a] i2 [of x] i3 [of u] r1 r2 r3 s1 s2 show ?thesis by blast
qed

text \<open>
  An instance of C9: reducing \<open>{7, 9}\<close> with itself under \<open>Max\<close> on \<open>unsigned\<close>,
  \<open>{1.0, 2.0}\<close> under \<open>Min\<close> on \<open>float\<close> and \<open>{1.0}\<close> under \<open>Max\<close> on \<open>double\<close>.
\<close>

theorem C9_idempotent_operators_witness:
  "(2 :: int) \<le> int (length [7, 9 :: 32 word]) \<and>
   Reducer (Max_Reduce unsigned_lt) [7, 9 :: 32 word] [7, 9] 2 \<lparr>type_size = 4\<rparr> =
     Inr \<lparr>src_buf = [7, 9], dst_buf = [7, 9]\<rparr> \<and>
   (2 :: int) \<le> int (length [0x3F800000, 0x40000000 :: 32 word]) \<and>
   Reducer (Min_Reduce float_gt) [0x3F800000, 0x40000000] [0x3F800000, 0x40000000] 2
       \<lparr>type_size = 4\<rparr> =
     Inr \<lparr>src_buf = [0x3F800000, 0x40000000], dst_buf = [0x3F800000, 0x40000000]\<rparr> \<and>
   (2 :: int) \<le> int (length [0x3FF0000000000000, 0 :: 64 word]) \<and>
   Reducer (Max_Reduce double_lt) [0x3FF0000000000000, 0] [0x3FF0000000000000, 0] 2
       \<lparr>type_size = 4\<rparr> =
     Inr \<lparr>src_buf = [0x3FF0000000000000, 0], dst_buf = [0x3FF0000000000000, 0]\<rparr>"
proof -
  have b: "(2 :: int) \<le> int (length [7, 9 :: 32 word])"
    "(2 :: int) \<le> int (length [0x3F800000, 0x40000000 :: 32 word])"
    "(2 :: int) \<le> int (length [0x3FF0000000000000, 0 :: 64 word])"
    by simp_all
  from b C9_idempotent_operators [where len = 2 and d = "[7, 9 :: 32 word]"
      and fd = "[0x3F800000, 0x40000000]" and dd = "[0x3FF0000000000000, 0]"
      and dt = "\<lparr>type_size = 4\<rparr>" and a = "0 :: 32 word" and x = 0 and u = 0]
  show ?thesis by blast
qed

section \<open>Facts about Broadcast\<close>

lemma length_resize: "length (resize z v n) = n"
  by (simp add: resize_def)

lemma resize_same: "resize z v (length v) = v"
  by (simp add: resize_def)

lemma Broadcast_vector_unfold:
  "Broadcast_vector bc_size bc_data sz z root (w, v) =
     (let n = snd (bc_size (eng w) (length v) sizeof_size_t root);
          e1 = fst (bc_size (eng w) (length v) sizeof_size_t root);
          tr = trace w @ [EngineBroadcast sizeof_size_t root]
               @ (if length v \<noteq> n then [Resize n] else []);
          v2 = (if length v \<noteq> n then resize z v n else v)
      in if n \<noteq> 0
         then (\<lparr>eng = fst (bc_data e1 v2 (n * sz) root),
                trace = tr @ [EngineBroadcast (n * sz) root]\<rparr>,
               snd (bc_data e1 v2 (n * sz) root))
         else (\<lparr>eng = e1, trace = tr\<rparr>, v2))"
  by (simp add: Broadcast_vector_def Broadcast_raw_def Let_def split_beta)

lemma Broadcast_string_vector:
  "Broadcast_string bc_size bc_data root st =
   Broadcast_vector bc_size bc_data 1 (CHR 0x00) root st"
  by (simp add: Broadcast_string_def Broadcast_vector_def Let_def split_beta)

text \<open>
  C4. For a vector and for a string alike, with \<open>n\<close> the length that the first
  broadcast leaves in \<open>size\<close>: the log of the call is the broadcast of
  \<open>sizeof(size_t)\<close> bytes, then a \<open>resize\<close> to \<open>n\<close> exactly when the container's
  length is not \<open>n\<close>, then the broadcast of \<open>n * sizeof(DType)\<close> bytes exactly
  when \<open>n\<close> is not 0. The container that the payload broadcast is given has length
  \<open>n\<close>, and is the caller's own when its length was \<open>n\<close> already. When \<open>n = 0\<close>
  the engine is called once only, and an empty container comes back empty.
\<close>

theorem C4_Broadcast_length_then_payload:
  fixes v :: "'a list" and str :: string and w :: "'e bworld"
  shows
  "trace (fst (Broadcast_vector bc_size bc_data sz z root (w, v))) =
     trace w @ [EngineBroadcast sizeof_size_t root]
     @ (if length v \<noteq> snd (bc_size (eng w) (length v) sizeof_size_t root)
        then [Resize (snd (bc_size (eng w) (length v) sizeof_size_t root))] else [])
     @ (if snd (bc_size (eng w) (length v) sizeof_size_t root) \<noteq> 0
        then [EngineBroadcast (snd (bc_size (eng w) (length v) sizeof_size_t root) * sz) root]
        else []) \<and>
   trace (fst (Broadcast_string bs_size bs_data root (w, str))) =
     trace w @ [EngineBroadcast sizeof_size_t root]
     @ (if length str \<noteq> snd (bs_size (eng w) (length str) sizeof_size_t root)
        then [Resize (snd (bs_size (eng w) (length str) sizeof_size_t root))] else [])
     @ (if snd (bs_size (eng w) (length str) sizeof_size_t root) \<noteq> 0
        then [EngineBroadcast (snd (bs_size (eng w) (length str) sizeof_size_t root) * 1) root]
        else []) \<and>
   (\<exists>v2. length v2 = snd (bc_size (eng w) (length v) sizeof_size_t root) \<and>
      (length v = snd (bc_size (eng w) (length v) sizeof_size_t root) \<longrightarrow> v2 = v) \<and>
      snd (Broadcast_vector bc_size bc_data sz z root (w, v)) =
        (if snd (bc_size (eng w) (length v) sizeof_size_t root) \<noteq> 0
         then snd (bc_data (fst (bc_size (eng w) (length v) sizeof_size_t root)) v2
                (snd (bc_size (eng w) (length v) sizeof_size_t root) * sz) root)
         else v2)) \<and>
   (\<exists>s2. length s2 = snd (bs_size (eng w) (length str) sizeof_size_t root) \<and>
      (length str = snd (bs_size (eng w) (length str) sizeof_size_t root) \<longrightarrow> s2 = str) \<and>
      snd (Broadcast_string bs_size bs_data root (w, str)) =
        (if snd (bs_size (eng w) (length str) sizeof_size_t root) \<noteq> 0
         then snd (bs_data (fst (bs_size (eng w) (length str) sizeof_size_t root)) s2
                (snd (bs_size (eng w) (length str) sizeof_size_t root) * 1) root)
         else s2)) \<and>
   (snd (bc_size (eng w) 0 sizeof_size_t root) = 0 \<longrightarrow>
      Broadcast_vector bc_size bc_data sz z root (w, []) =
        (\<lparr>eng = fst (bc_size (eng w) 0 sizeof_size_t root),
          trace = trace w @ [EngineBroadcast sizeof_size_t root]\<rparr>, [])) \<and>
   (snd (bs_size (eng w) 0 sizeof_size_t root) = 0 \<longrightarrow>
      Broadcast_string bs_size bs_data root (w, []) =
        (\<lparr>eng = fst (bs_size (eng w) 0 sizeof_size_t root),
          trace = trace w @ [EngineBroadcast sizeof_size_t root]\<rparr>, []))"
proof -
  have tr: "trace (fst (Broadcast_vector bc sd k y root (w, u))) =
     trace w @ [EngineBroadcast sizeof_size_t root]
     @ (if length u \<noteq> snd (bc (eng w) (length u) sizeof_size_t root)
        then [Resize (snd (bc (eng w) (length u) sizeof_size_t root))] else [])
     @ (if snd (bc (eng w) (length u) sizeof_size_t root) \<noteq> 0
        then [EngineBroadcast (snd (bc (eng w) (length u) sizeof_size_t root) * k) root]
        else [])"
    for bc and sd :: "'e \<Rightarrow> 'c list \<Rightarrow> nat \<Rightarrow> int \<Rightarrow> 'e \<times> 'c list" and k y and u :: "'c list"
    by (simp add: Broadcast_vector_unfold Let_def)
  have dt: "\<exists>v2. length v2 = snd (bc (eng w) (length u) sizeof_size_t root) \<and>
      (length u = snd (bc (eng w) (length u) sizeof_size_t root) \<longrightarrow> v2 = u) \<and>
      snd (Broadcast_vector bc sd k y root (w, u)) =
        (if snd (bc (eng w) (length u) sizeof_size_t root) \<noteq> 0
         then snd (sd (fst (bc (eng w) (length u) sizeof_size_t root)) v2
                (snd (bc (eng w) (length u) sizeof_size_t root) * k) root)
         else v2)"
    for bc and sd :: "'e \<Rightarrow> 'c list \<Rightarrow> nat \<Rightarrow> int \<Rightarrow> 'e \<times> 'c list" and k y and u :: "'c list"
    by (rule exI [of _ "if length u \<noteq> snd (bc (eng w) (length u) sizeof_size_t root)
          then resize y u (snd (bc (eng w) (length u) sizeof_size_t root)) else u"])
       (auto simp: Broadcast_vector_unfold Let_def length_resize resize_def)
  have z0: "snd (bc (eng w) 0 sizeof_size_t root) = 0 \<longrightarrow>
      Broadcast_vector bc sd k y root (w, []) =
        (\<lparr>eng = fst (bc (eng w) 0 sizeof_size_t root),
          trace = trace w @ [EngineBroadcast sizeof_size_t root]\<rparr>, [])"
    for bc and sd :: "'e \<Rightarrow> 'c list \<Rightarrow> nat \<Rightarrow> int \<Rightarrow> 'e \<times> 'c list" and k y
    by (simp add: Broadcast_vector_unfold Let_def)
  from tr [of bc_size bc_data sz z v] tr [of bs_size bs_data 1 "CHR 0x00" str]
    dt [of bc_size v bc_data sz z] dt [of bs_size str bs_data 1 "CHR 0x00"]
    z0 [of bc_size bc_data sz z] z0 [of bs_size bs_data 1 "CHR 0x00"]
  show ?thesis
    unfolding Broadcast_string_vector by blast
qed

text \<open>
  An instance of C4 (the scenario of the spec): a participant whose string is empty
  receives \<open>config-v1\<close>, of length 9, from the root. The log is the broadcast of the
  length, the resize to 9 and the broadcast of 9 bytes.
\<close>

theorem C4_Broadcast_length_then_payload_witness:
  "trace (fst (Broadcast_string recv_size recv_data 0
      (\<lparr>eng = (9, ''config-v1''), trace = []\<rparr>, ''''))) =
     [EngineBroadcast 8 0, Resize 9, EngineBroadcast 9 0] \<and>
   snd (recv_size (9 :: nat, ''config-v1'') 0 sizeof_size_t 0) = 9 \<and>
   length ('''' :: string) = 0"
proof -
  have n: "snd (recv_size (9 :: nat, ''config-v1'') 0 sizeof_size_t 0) = 9"
    by (simp add: recv_size_def)
  from C4_Broadcast_length_then_payload [where bs_size = recv_size and bs_data = recv_data
      and root = 0 and w = "\<lparr>eng = (9, ''config-v1''), trace = []\<rparr>" and str = "''''"
      and bc_size = recv_size and bc_data = recv_data and v = "''''" and sz = 1
      and z = "CHR 0x00"]
  have "trace (fst (Broadcast_string recv_size recv_data 0
      (\<lparr>eng = (9, ''config-v1''), trace = []\<rparr>, ''''))) =
     trace \<lparr>eng = (9 :: nat, ''config-v1''), trace = []\<rparr> @ [EngineBroadcast sizeof_size_t 0]
     @ (if length ('''' :: string) \<noteq>
           snd (recv_size (eng \<lparr>eng = (9 :: nat, ''config-v1''), trace = []\<rparr>)
                  (length ('''' :: string)) sizeof_size_t 0)
        then [Resize (snd (recv_size (eng \<lparr>eng = (9 :: nat, ''config-v1''), trace = []\<rparr>)
                  (length ('''' :: string)) sizeof_size_t 0))] else [])
     @ (if snd (recv_size (eng \<lparr>eng = (9 :: nat, ''config-v1''), trace = []\<rparr>)
                  (length ('''' :: string)) sizeof_size_t 0) \<noteq> 0
        then [EngineBroadcast (snd (recv_size (eng \<lparr>eng = (9 :: nat, ''config-v1''), trace = []\<rparr>)
                  (length ('''' :: string)) sizeof_size_t 0) * 1) 0]
        else [])"
    by blast
  with n show ?thesis
    by (simp add: recv_size_def sizeof_size_t_def)
qed

section \<open>Facts about TrackerPrintf\<close>

lemma length_vsnprintf:
  "n \<le> length buf \<Longrightarrow> length (vsnprintf buf n out) = length buf"
  by (auto simp: vsnprintf_def min_def)

text \<open>
  C10. Whatever the formatted output \<open>out\<close> is, the message \<open>TrackerPrintf\<close> passes
  to \<open>TrackerPrint\<close> has length 1024: it is the first 1023 characters of \<open>out\<close>
  (all of \<open>out\<close> when it is no longer than 1023) followed by NUL characters up to
  length 1024.
\<close>

theorem C10_TrackerPrintf_message_length:
  "TrackerPrintf TrackerPrint out =
     TrackerPrint (take 1023 out @ replicate (1024 - min (length out) 1023) (CHR 0x00)) \<and>
   length (TrackerPrintf (\<lambda>msg. msg) out) = 1024 \<and>
   take (min (length out) 1023) (TrackerPrintf (\<lambda>msg. msg) out) = take 1023 out \<and>
   drop (min (length out) 1023) (TrackerPrintf (\<lambda>msg. msg) out) =
     replicate (1024 - min (length out) 1023) (CHR 0x00)"
proof -
  have "vsnprintf (replicate kPrintBuffer (CHR 0x00)) kPrintBuffer out =
      take 1023 out @ replicate (1024 - min (length out) 1023) (CHR 0x00)"
  proof -
    have "[CHR 0x00] @ replicate (1023 - min (length out) 1023) (CHR 0x00) =
        replicate (Suc (1023 - min (length out) 1023)) (CHR 0x00)"
      by simp
    moreover have "Suc (1023 - min (length out) 1023) = 1024 - min (length out) 1023"
      by arith
    ultimately show ?thesis
      by (simp add: vsnprintf_def kPrintBuffer_def)
  qed
  then have m: "TrackerPrintf f out =
      f (take 1023 out @ replicate (1024 - min (length out) 1023) (CHR 0x00))" for f :: "string \<Rightarrow> 'b"
    by (simp add: TrackerPrintf_def Let_def)
  have l: "length (take 1023 out @ replicate (1024 - min (length out) 1023) (CHR 0x00)) = 1024"
    by (simp add: min_def)
  have t: "take (min (length out) 1023)
      (take 1023 out @ replicate (1024 - min (length out) 1023) (CHR 0x00)) = take 1023 out"
    by (simp add: min_def)
  have d: "drop (min (length out) 1023)
      (take 1023 out @ replicate (1024 - min (length out) 1023) (CHR 0x00)) =
      replicate (1024 - min (length out) 1023) (CHR 0x00)"
    by (simp add: min_def)
  from m [of TrackerPrint] m [of "\<lambda>msg. msg"] l t d show ?thesis by simp
qed

section \<open>Facts about the checkpoint state\<close>

lemma run_call_version: "VersionNumber (run_call c s) = VersionNumber s + 1"
  by (cases c)
     (simp_all add: VersionNumber_def engine_VersionNumber_def CheckPoint_def
       LazyCheckPoint_def engine_CheckPoint_def engine_LazyCheckPoint_def)

lemma run_calls_version: "VersionNumber (run_calls cs s) = VersionNumber s + int (length cs)"
  by (induction cs arbitrary: s) (simp_all add: run_call_version)

lemma run_calls_append: "run_calls (cs @ ds) s = run_calls ds (run_calls cs s)"
  by (induction cs arbitrary: s) simp_all

lemma run_call_global: "global_committed (run_call c s) = Some (global_of c)"
  by (cases c)
     (simp_all add: CheckPoint_def LazyCheckPoint_def engine_CheckPoint_def
       engine_LazyCheckPoint_def)

text \<open>
  C2. In the checkpoint state as the spec describes it: each \<open>CheckPoint\<close> and each
  \<open>LazyCheckPoint\<close> increments \<open>VersionNumber()\<close> by exactly 1, so after any
  sequence of calls it has grown by the number of calls and it never decreases along
  the sequence; after a sequence ending in a call \<open>c\<close>, \<open>LoadCheckPoint\<close> returns
  that version together with the global model of \<open>c\<close>, the last one committed;
  before any checkpoint, \<open>LoadCheckPoint\<close> returns 0 and the caller's two models as
  they were.
\<close>

theorem C2_version_monotone:
  "VersionNumber (CheckPoint g l s) = VersionNumber s + 1 \<and>
   VersionNumber (LazyCheckPoint g s) = VersionNumber s + 1 \<and>
   VersionNumber (run_calls cs s) = VersionNumber s + int (length cs) \<and>
   VersionNumber (run_calls cs s) \<le> VersionNumber (run_calls (cs @ ds) s) \<and>
   VersionNumber (run_calls cs initial_CheckpointState) = int (length cs) \<and>
   fst (LoadCheckPoint g0 l0 (run_calls (cs @ [c]) s)) = VersionNumber (run_calls (cs @ [c]) s) \<and>
   fst (snd (LoadCheckPoint g0 l0 (run_calls (cs @ [c]) s))) = global_of c \<and>
   LoadCheckPoint g0 l0 initial_CheckpointState = (0, g0, l0)"
proof -
  have a: "VersionNumber (CheckPoint g l s) = VersionNumber s + 1"
    using run_call_version [of "Full g l" s] by simp
  have b: "VersionNumber (LazyCheckPoint g s) = VersionNumber s + 1"
    using run_call_version [of "Lazy g" s] by simp
  have c: "VersionNumber (run_calls cs s) \<le> VersionNumber (run_calls (cs @ ds) s)"
    by (simp add: run_calls_append run_calls_version)
  have d: "VersionNumber (run_calls cs initial_CheckpointState) = int (length cs)"
    by (simp add: run_calls_version [of cs initial_CheckpointState])
       (simp add: VersionNumber_def engine_VersionNumber_def initial_CheckpointState_def)
  have last: "global_committed (run_calls (cs @ [c]) s) = Some (global_of c)"
    by (simp add: run_calls_append run_call_global)
  have e: "fst (LoadCheckPoint g0 l0 (run_calls (cs @ [c]) s)) =
      VersionNumber (run_calls (cs @ [c]) s)"
    using last
    by (simp add: LoadCheckPoint_def engine_LoadCheckPoint_def VersionNumber_def
        engine_VersionNumber_def)
  have f: "fst (snd (LoadCheckPoint g0 l0 (run_calls (cs @ [c]) s))) = global_of c"
    using last by (simp add: LoadCheckPoint_def engine_LoadCheckPoint_def)
  have g: "LoadCheckPoint g0 l0 initial_CheckpointState = (0, g0, l0)"
    by (simp add: LoadCheckPoint_def engine_LoadCheckPoint_def initial_CheckpointState_def)
  from a b run_calls_version [of cs s] c d e f g show ?thesis by blast
qed

section \<open>Facts about slots and the memory stream\<close>

lemma length_slot: "(i + 1) * n \<le> length buf \<Longrightarrow> length (slot buf n i) = n"
  by (simp add: slot_def window_def)

lemma length_put_slot:
  "(i + 1) * n \<le> length buf \<Longrightarrow> length s = n \<Longrightarrow> length (put_slot buf n i s) = length buf"
  by (simp add: put_slot_def put_window_def)

lemma slot_put_slot_same:
  "(i + 1) * n \<le> length buf \<Longrightarrow> length s = n \<Longrightarrow> slot (put_slot buf n i s) n i = s"
  by (simp add: put_slot_def put_window_def slot_def window_def)

lemma slot_put_slot_other:
  assumes "j \<noteq> i" "(i + 1) * n \<le> length buf" "length s = n"
  shows "slot (put_slot buf n i s) n j = slot buf n j"
proof (cases "j < i")
  case True
  then have "Suc j \<le> i" by simp
  then have "Suc j * n \<le> i * n" by (rule mult_le_mono1)
  then have le: "j * n + n \<le> i * n" by simp
  with assms(2) have "j * n + n \<le> length buf" by simp
  with le show ?thesis by (simp add: put_slot_def put_window_def slot_def window_def take_drop min_def) arith
next
  case False
  with assms(1) have "Suc i \<le> j" by simp
  then have "Suc i * n \<le> j * n" by (rule mult_le_mono1)
  then have le: "i * n + n \<le> j * n" by simp
  then obtain k where k: "j * n = i * n + n + k" by (metis le_Suc_ex)
  from assms(2) have "i * n \<le> length buf" by simp
  with k assms(3) show ?thesis by (simp add: put_slot_def put_window_def slot_def window_def min_def add.commute add.left_commute)
qed

lemma drop_put_slot:
  assumes "(i + 1) * n \<le> k" "(i + 1) * n \<le> length buf" "length s = n"
  shows "drop k (put_slot buf n i s) = drop k buf"
proof -
  from assms(1) obtain r where r: "k = i * n + n + r" by (metis le_Suc_ex add.commute mult_Suc Suc_eq_plus1)
  from assms(2) have "i * n \<le> length buf" by simp
  with r assms(3) show ?thesis by (simp add: put_slot_def put_window_def min_def add.commute add.left_commute)
qed

lemma obj_Save_init:
  "obj_Save T x (fs_init w) =
     (if length (Save T x) \<le> length w
      then Inr \<lparr>p_buffer = Save T x @ drop (length (Save T x)) w, curr_ptr = length (Save T x)\<rparr>
      else Inl WriteOverflow)"
  by (simp add: obj_Save_def fs_init_def fs_Write_def)

lemma obj_Save_Seek0:
  "obj_Save T x (fs_Seek fs 0) =
     (if length (Save T x) \<le> length (p_buffer fs)
      then Inr \<lparr>p_buffer = Save T x @ drop (length (Save T x)) (p_buffer fs),
                curr_ptr = length (Save T x)\<rparr>
      else Inl WriteOverflow)"
  by (simp add: obj_Save_def fs_Seek_def fs_Write_def)

lemma obj_Load_init:
  "obj_Load T (fs_init w) =
     (case Load T w of
        None \<Rightarrow> Inl ReadPastEnd
      | Some (x, n) \<Rightarrow>
          if n \<le> length w then Inr (x, \<lparr>p_buffer = w, curr_ptr = n\<rparr>) else Inl ReadPastEnd)"
  by (simp add: obj_Load_def fs_init_def split: option.splits)

lemma slot_result_Inr:
  assumes "Load T ssrc = Some (tsrc, n)" "n \<le> length ssrc"
    "Load T sdst = Some (tdst, k)" "k \<le> length sdst"
    "length (Save T (Reduce_obj T tdst tsrc nbytes)) \<le> length sdst"
  shows "slot_result T nbytes ssrc sdst =
     Inr (Save T (Reduce_obj T tdst tsrc nbytes)
          @ drop (length (Save T (Reduce_obj T tdst tsrc nbytes))) sdst)"
  using assms by (simp add: slot_result_def obj_Load_init obj_Save_Seek0)

lemma length_slot_result:
  "slot_result T nbytes ssrc sdst = Inr r \<Longrightarrow> length r = length sdst"
  by (auto simp: slot_result_def obj_Load_init obj_Save_Seek0
      split: option.splits if_splits sum.splits prod.splits)

lemma size_t_mul_exact: "a * b < 2 ^ 64 \<Longrightarrow> size_t_mul a b = a * b"
  by (simp add: size_t_mul_def)

lemma body_slot_result:
  "SerializeReducerFunc_body T nbytes i m =
     (if INT_MAX < nbytes \<or> INT_MAX < i * nbytes then Inl IntOverflow
      else if (i + 1) * nbytes \<le> length (src_buf m) \<and> (i + 1) * nbytes \<le> length (dst_buf m) then
        (case slot_result T nbytes (slot (src_buf m) nbytes i) (slot (dst_buf m) nbytes i) of
           Inl e \<Rightarrow> Inl e
         | Inr r \<Rightarrow> Inr (m\<lparr>dst_buf := put_slot (dst_buf m) nbytes i r\<rparr>))
      else Inl OutOfBounds)"
  by (simp add: SerializeReducerFunc_body_def slot_result_def slot_def put_slot_def Let_def
      split: sum.splits prod.splits)


lemma SRF_loop_inv:
  "nat len * nbytes \<le> length (src_buf m) \<Longrightarrow> nat len * nbytes \<le> length (dst_buf m) \<Longrightarrow>
   (\<forall>j. i \<le> j \<and> int j < len \<longrightarrow>
      (\<exists>r. slot_result T nbytes (slot (src_buf m) nbytes j) (slot (dst_buf m) nbytes j) = Inr r)) \<Longrightarrow>
   nat len * nbytes < 2 ^ 31 \<Longrightarrow>
   \<exists>d'. SerializeReducerFunc_loop T nbytes len i m = Inr (m\<lparr>dst_buf := d'\<rparr>) \<and>
     length d' = length (dst_buf m) \<and>
     drop (nat len * nbytes) d' = drop (nat len * nbytes) (dst_buf m) \<and>
     (\<forall>j. Inr (slot d' nbytes j) =
        (if i \<le> j \<and> int j < len
         then slot_result T nbytes (slot (src_buf m) nbytes j) (slot (dst_buf m) nbytes j)
         else Inr (slot (dst_buf m) nbytes j)))"
proof (induction T nbytes len i m rule: SerializeReducerFunc_loop.induct)
  case (1 T nbytes len i m)
  show ?case
  proof (cases "int i < len")
    case False
    then have "SerializeReducerFunc_loop T nbytes len i m = Inr (m\<lparr>dst_buf := dst_buf m\<rparr>)"
      by (simp add: SerializeReducerFunc_loop.simps [of T nbytes len i m])
    with False show ?thesis by (intro exI [of _ "dst_buf m"]) auto
  next
    case True
    then have "Suc i \<le> nat len" by simp
    then have "Suc i * nbytes \<le> nat len * nbytes" by (rule mult_le_mono1)
    with "1.prems"(1,2) have inb: "(i + 1) * nbytes \<le> length (src_buf m)"
      "(i + 1) * nbytes \<le> length (dst_buf m)" by simp_all
    from "1.prems"(3) True obtain r where
      r: "slot_result T nbytes (slot (src_buf m) nbytes i) (slot (dst_buf m) nbytes i) = Inr r"
      by blast
    have lr: "length r = nbytes"
      using length_slot_result [OF r] inb(2) by (simp add: length_slot)
    let ?m1 = "m\<lparr>dst_buf := put_slot (dst_buf m) nbytes i r\<rparr>"
    have "i * nbytes \<le> Suc i * nbytes" "nbytes \<le> Suc i * nbytes" by simp_all
    with \<open>Suc i * nbytes \<le> nat len * nbytes\<close> "1.prems"(4)
    have noov: "\<not> (INT_MAX < nbytes \<or> INT_MAX < i * nbytes)" by (simp add: INT_MAX_def)
    have body: "SerializeReducerFunc_body T nbytes i m = Inr ?m1"
      using inb r noov by (simp add: body_slot_result)
    have other: "slot (dst_buf ?m1) nbytes j = slot (dst_buf m) nbytes j" if "j \<noteq> i" for j
      using that inb(2) lr by (simp add: slot_put_slot_other)
    have len1: "length (dst_buf ?m1) = length (dst_buf m)"
      using inb(2) lr by (simp add: length_put_slot)
    have p1: "nat len * nbytes \<le> length (src_buf ?m1)" using "1.prems"(1) by simp
    have p2: "nat len * nbytes \<le> length (dst_buf ?m1)" using "1.prems"(2) len1 by simp
    have p3: "\<forall>j. i + 1 \<le> j \<and> int j < len \<longrightarrow>
      (\<exists>r. slot_result T nbytes (slot (src_buf ?m1) nbytes j) (slot (dst_buf ?m1) nbytes j) = Inr r)"
    proof (intro allI impI)
      fix j assume j: "i + 1 \<le> j \<and> int j < len"
      then have "j \<noteq> i" by simp
      from other [OF this] "1.prems"(3) j
      show "\<exists>r. slot_result T nbytes (slot (src_buf ?m1) nbytes j) (slot (dst_buf ?m1) nbytes j) = Inr r"
        by simp
    qed
    from "1.IH" [OF True body p1 p2 p3 "1.prems"(4)]
    obtain d' where d': "SerializeReducerFunc_loop T nbytes len (i + 1) ?m1 = Inr (?m1\<lparr>dst_buf := d'\<rparr>)"
      "length d' = length (dst_buf ?m1)"
      "drop (nat len * nbytes) d' = drop (nat len * nbytes) (dst_buf ?m1)"
      "\<forall>j. Inr (slot d' nbytes j) =
        (if i + 1 \<le> j \<and> int j < len
         then slot_result T nbytes (slot (src_buf ?m1) nbytes j) (slot (dst_buf ?m1) nbytes j)
         else Inr (slot (dst_buf ?m1) nbytes j))"
      by blast
    have step: "SerializeReducerFunc_loop T nbytes len i m = Inr (m\<lparr>dst_buf := d'\<rparr>)"
      using True body d'(1) by (simp add: SerializeReducerFunc_loop.simps [of T nbytes len i m])
    have dr: "drop (nat len * nbytes) d' = drop (nat len * nbytes) (dst_buf m)"
      using d'(3) \<open>Suc i * nbytes \<le> nat len * nbytes\<close> inb(2) lr
      by (simp add: drop_put_slot)
    have sl: "\<forall>j. Inr (slot d' nbytes j) =
        (if i \<le> j \<and> int j < len
         then slot_result T nbytes (slot (src_buf m) nbytes j) (slot (dst_buf m) nbytes j)
         else Inr (slot (dst_buf m) nbytes j))"
    proof
      fix j
      show "Inr (slot d' nbytes j) =
        (if i \<le> j \<and> int j < len
         then slot_result T nbytes (slot (src_buf m) nbytes j) (slot (dst_buf m) nbytes j)
         else Inr (slot (dst_buf m) nbytes j))"
      proof (cases "j = i")
        case True
        from d'(4) have "Inr (slot d' nbytes i) = (Inr (slot (dst_buf ?m1) nbytes i) :: error + byte list)"
          by simp
        also have "slot (dst_buf ?m1) nbytes i = r"
          using inb(2) lr by (simp add: slot_put_slot_same)
        finally show ?thesis using True r \<open>int i < len\<close> by simp
      next
        case False
        from d'(4) other [OF False] False show ?thesis by (auto split: if_splits)
      qed
    qed
    have ln: "length d' = length (dst_buf m)" using d'(2) len1 by simp
    show ?thesis
      by (rule exI [of _ d']) (use step ln dr sl in blast)
  qed
qed


lemma Run_loop_inv:
  "count c \<le> length (sendrecvobj (snd m)) \<Longrightarrow> count c * max_nbyte c \<le> length (fst m) \<Longrightarrow>
   (\<forall>j. i \<le> j \<and> j < count c \<longrightarrow> length (Save T (sendrecvobj (snd m) ! j)) \<le> max_nbyte c) \<Longrightarrow>
   count c * max_nbyte c < 2 ^ 64 \<Longrightarrow>
   \<exists>b'. Run_loop T c i m = Inr (b', snd m) \<and> length b' = length (fst m) \<and>
     drop (count c * max_nbyte c) b' = drop (count c * max_nbyte c) (fst m) \<and>
     (\<forall>j. slot b' (max_nbyte c) j =
        (if i \<le> j \<and> j < count c
         then Save T (sendrecvobj (snd m) ! j)
              @ drop (length (Save T (sendrecvobj (snd m) ! j))) (slot (fst m) (max_nbyte c) j)
         else slot (fst m) (max_nbyte c) j))"
proof (induction T c i m rule: Run_loop.induct)
  case (1 T c i m)
  let ?n = "max_nbyte c"
  show ?case
  proof (cases "i < count c")
    case False
    then have "Run_loop T c i m = Inr (fst m, snd m)"
      by (simp add: Run_loop.simps [of T c i m])
    with False show ?thesis by (intro exI [of _ "fst m"]) auto
  next
    case True
    then have "Suc i \<le> count c" by simp
    then have mono: "Suc i * ?n \<le> count c * ?n" by (rule mult_le_mono1)
    with "1.prems"(2) have inb: "(i + 1) * ?n \<le> length (fst m)" by simp
    from True "1.prems"(1) have ino: "i < length (sendrecvobj (snd m))" by simp
    have "i * ?n \<le> Suc i * ?n" by simp
    with mono "1.prems"(4) have "i * ?n < 2 ^ 64" by simp
    then have off: "size_t_mul i ?n = i * ?n" by (rule size_t_mul_exact)
    have inb': "size_t_mul i ?n + ?n \<le> length (fst m)" using inb off by simp
    let ?x = "sendrecvobj (snd m) ! i"
    let ?r = "Save T ?x @ drop (length (Save T ?x)) (slot (fst m) ?n i)"
    from "1.prems"(3) True have fit: "length (Save T ?x) \<le> ?n" by simp
    have lr: "length ?r = ?n" using fit inb by (simp add: length_slot)
    define fs where "fs = \<lparr>p_buffer = ?r, curr_ptr = length (Save T ?x)\<rparr>"
    have pb: "p_buffer fs = ?r" by (simp add: fs_def)
    have sv: "obj_Save T ?x (fs_init (slot (fst m) ?n i)) = Inr fs"
      using fit inb by (simp add: obj_Save_init length_slot fs_def)
    then have sv': "obj_Save T ?x (fs_init (window (fst m) (size_t_mul i ?n) ?n)) = Inr fs"
      by (simp add: off slot_def)
    let ?m1 = "(put_slot (fst m) ?n i ?r, snd m)"
    have other: "slot (fst ?m1) ?n j = slot (fst m) ?n j" if "j \<noteq> i" for j
      using that inb lr slot_put_slot_other [of j i ?n "fst m" ?r] by simp
    have len1: "length (fst ?m1) = length (fst m)"
      using inb lr length_put_slot [of i ?n "fst m" ?r] by simp
    have p1: "count c \<le> length (sendrecvobj (snd ?m1))" using "1.prems"(1) by simp
    have p2: "count c * ?n \<le> length (fst ?m1)" using "1.prems"(2) len1 by simp
    have p3: "\<forall>j. i + 1 \<le> j \<and> j < count c \<longrightarrow>
        length (Save T (sendrecvobj (snd ?m1) ! j)) \<le> ?n"
      using "1.prems"(3) by simp
    have "\<exists>b'. Run_loop T c (i + 1) ?m1 = Inr (b', snd ?m1) \<and>
      length b' = length (fst ?m1) \<and>
      drop (count c * ?n) b' = drop (count c * ?n) (fst ?m1) \<and>
      (\<forall>j. slot b' ?n j =
        (if i + 1 \<le> j \<and> j < count c
         then Save T (sendrecvobj (snd ?m1) ! j)
              @ drop (length (Save T (sendrecvobj (snd ?m1) ! j))) (slot (fst ?m1) ?n j)
         else slot (fst ?m1) ?n j))"
      by (rule "1.IH" [OF True conjI [OF ino inb'] sv', unfolded pb off, folded put_slot_def,
            OF p1 p2 p3 "1.prems"(4)])
    then obtain b' where b': "Run_loop T c (i + 1) ?m1 = Inr (b', snd ?m1)"
      "length b' = length (fst ?m1)"
      "drop (count c * ?n) b' = drop (count c * ?n) (fst ?m1)"
      "\<forall>j. slot b' ?n j =
        (if i + 1 \<le> j \<and> j < count c
         then Save T (sendrecvobj (snd ?m1) ! j)
              @ drop (length (Save T (sendrecvobj (snd ?m1) ! j))) (slot (fst ?m1) ?n j)
         else slot (fst ?m1) ?n j)"
      by auto
    have step: "Run_loop T c i m = Inr (b', snd m)"
      using True ino inb' sv' b'(1) pb off
      by (simp add: Run_loop.simps [of T c i m] put_slot_def)
    have ln: "length b' = length (fst m)" using b'(2) len1 by simp
    have dr: "drop (count c * ?n) b' = drop (count c * ?n) (fst m)"
      using b'(3) mono inb lr drop_put_slot [of i ?n "count c * ?n" "fst m" ?r] by simp
    have sl: "\<forall>j. slot b' ?n j =
        (if i \<le> j \<and> j < count c
         then Save T (sendrecvobj (snd m) ! j)
              @ drop (length (Save T (sendrecvobj (snd m) ! j))) (slot (fst m) ?n j)
         else slot (fst m) ?n j)"
    proof
      fix j
      show "slot b' ?n j =
        (if i \<le> j \<and> j < count c
         then Save T (sendrecvobj (snd m) ! j)
              @ drop (length (Save T (sendrecvobj (snd m) ! j))) (slot (fst m) ?n j)
         else slot (fst m) ?n j)"
      proof (cases "j = i")
        case True
        from b'(4) have "slot b' ?n i = slot (fst ?m1) ?n i" by simp
        also have "\<dots> = ?r"
          using inb lr slot_put_slot_same [of i ?n "fst m" ?r] by simp
        finally show ?thesis using True \<open>i < count c\<close> by simp
      next
        case False
        from b'(4) other [OF False] False show ?thesis by (auto split: if_splits)
      qed
    qed
    show ?thesis
      by (rule exI [of _ b']) (use step ln dr sl in blast)
  qed
qed

lemma Load_loop_inv:
  "cnt \<le> length (sendrecvobj (snd m)) \<Longrightarrow> cnt * n \<le> length (fst m) \<Longrightarrow>
   (\<forall>j. i \<le> j \<and> j < cnt \<longrightarrow> (\<exists>x k. Load T (slot (fst m) n j) = Some (x, k) \<and> k \<le> n)) \<Longrightarrow>
   cnt * n < 2 ^ 64 \<Longrightarrow>
   \<exists>objs'. Load_loop T n cnt i m = Inr (fst m, (snd m)\<lparr>sendrecvobj := objs'\<rparr>) \<and>
     length objs' = length (sendrecvobj (snd m)) \<and>
     (\<forall>j < length objs'. Some (objs' ! j) =
        (if i \<le> j \<and> j < cnt then map_option fst (Load T (slot (fst m) n j))
         else Some (sendrecvobj (snd m) ! j)))"
proof (induction T n cnt i m rule: Load_loop.induct)
  case (1 T n cnt i m)
  show ?case
  proof (cases "i < cnt")
    case False
    then have "Load_loop T n cnt i m = Inr (fst m, (snd m)\<lparr>sendrecvobj := sendrecvobj (snd m)\<rparr>)"
      by (simp add: Load_loop.simps [of T n cnt i m])
    with False show ?thesis by (intro exI [of _ "sendrecvobj (snd m)"]) auto
  next
    case True
    then have "Suc i \<le> cnt" by simp
    then have mono: "Suc i * n \<le> cnt * n" by (rule mult_le_mono1)
    with "1.prems"(2) have inb: "(i + 1) * n \<le> length (fst m)" by simp
    have "i * n \<le> Suc i * n" by simp
    with mono "1.prems"(4) have "i * n < 2 ^ 64" by simp
    then have off: "size_t_mul i n = i * n" by (rule size_t_mul_exact)
    have inb': "size_t_mul i n + n \<le> length (fst m)" using inb off by simp
    from True "1.prems"(1) have ino: "i < length (sendrecvobj (snd m))" by simp
    from "1.prems"(3) True obtain x k where
      xk: "Load T (slot (fst m) n i) = Some (x, k)" "k \<le> n" by blast
    have ld: "obj_Load T (fs_init (slot (fst m) n i)) =
        Inr (x, \<lparr>p_buffer = slot (fst m) n i, curr_ptr = k\<rparr>)"
      using xk inb by (simp add: obj_Load_init length_slot)
    then have ld': "obj_Load T (fs_init (window (fst m) (size_t_mul i n) n)) =
        Inr (x, \<lparr>p_buffer = slot (fst m) n i, curr_ptr = k\<rparr>)"
      by (simp add: off slot_def)
    let ?m1 = "(fst m, (snd m)\<lparr>sendrecvobj := (sendrecvobj (snd m))[i := x]\<rparr>)"
    have p1: "cnt \<le> length (sendrecvobj (snd ?m1))" using "1.prems"(1) by simp
    have p2: "cnt * n \<le> length (fst ?m1)" using "1.prems"(2) by simp
    have p3: "\<forall>j. i + 1 \<le> j \<and> j < cnt \<longrightarrow>
        (\<exists>x k. Load T (slot (fst ?m1) n j) = Some (x, k) \<and> k \<le> n)"
      using "1.prems"(3) by simp
    have "\<exists>objs'. Load_loop T n cnt (i + 1) ?m1 = Inr (fst ?m1, (snd ?m1)\<lparr>sendrecvobj := objs'\<rparr>) \<and>
      length objs' = length (sendrecvobj (snd ?m1)) \<and>
      (\<forall>j < length objs'. Some (objs' ! j) =
        (if i + 1 \<le> j \<and> j < cnt then map_option fst (Load T (slot (fst ?m1) n j))
         else Some (sendrecvobj (snd ?m1) ! j)))"
      using "1.IH" [OF True conjI [OF ino inb'] ld' refl] p1 p2 p3 "1.prems"(4) by simp
    then obtain objs' where o: "Load_loop T n cnt (i + 1) ?m1 = Inr (fst ?m1, (snd ?m1)\<lparr>sendrecvobj := objs'\<rparr>)"
      "length objs' = length (sendrecvobj (snd ?m1))"
      "\<forall>j < length objs'. Some (objs' ! j) =
        (if i + 1 \<le> j \<and> j < cnt then map_option fst (Load T (slot (fst ?m1) n j))
         else Some (sendrecvobj (snd ?m1) ! j))"
      by auto
    have step: "Load_loop T n cnt i m = Inr (fst m, (snd m)\<lparr>sendrecvobj := objs'\<rparr>)"
      using True ino inb' ld' o(1) by (simp add: Load_loop.simps [of T n cnt i m])
    have ln: "length objs' = length (sendrecvobj (snd m))" using o(2) by simp
    have el: "\<forall>j < length objs'. Some (objs' ! j) =
        (if i \<le> j \<and> j < cnt then map_option fst (Load T (slot (fst m) n j))
         else Some (sendrecvobj (snd m) ! j))"
    proof (intro allI impI)
      fix j assume j: "j < length objs'"
      show "Some (objs' ! j) =
        (if i \<le> j \<and> j < cnt then map_option fst (Load T (slot (fst m) n j))
         else Some (sendrecvobj (snd m) ! j))"
      proof (cases "j = i")
        case True
        with o(3) j ino xk \<open>i < cnt\<close> show ?thesis by simp
      next
        case False
        with o(3) j show ?thesis by (auto split: if_splits)
      qed
    qed
    show ?thesis
      by (rule exI [of _ objs']) (use step ln el in blast)
  qed
qed

section \<open>Facts about the adapter\<close>

lemma slot_in_bounds:
  assumes "int i < len" "nat len * n \<le> length b"
  shows "(i + 1) * n \<le> length b"
proof -
  from assms(1) have "Suc i \<le> nat len" by simp
  then have "Suc i * n \<le> nat len * n" by (rule mult_le_mono1)
  with assms(2) show ?thesis by simp
qed

text \<open>
  Where the offset \<open>i * nbytes\<close> leaves the range of \<open>int\<close>, the body stops: with
  slots of \<open>2 ^ 30\<close> bytes this is so at index 2.
\<close>

lemma body_int_overflow: "SerializeReducerFunc_body T (2 ^ 30) 2 m = Inl IntOverflow"
  by (simp add: SerializeReducerFunc_body_def INT_MAX_def)

text \<open>
  C7. With \<open>len\<close> slots of \<open>nbytes\<close> bytes in both buffers, \<open>len * nbytes\<close>
  within the range of \<open>int\<close>, and when for every slot
  below \<open>len\<close> the two loads succeed within the slot and the encoding of the reduced
  object fits into \<open>nbytes\<close> bytes, \<open>SerializeReducerFunc_\<close> returns with \<open>src\<close> as
  it was and with every destination slot \<open>i < len\<close> holding, from its offset 0 on,
  the bytes \<open>Save\<close> writes for \<open>tdst.Reduce(tsrc, nbytes)\<close>, where \<open>tsrc\<close> and
  \<open>tdst\<close> are loaded from slot \<open>i\<close> of \<open>src\<close> and of the old \<open>dst\<close>; the bytes of
  the slot behind the encoding and the bytes behind the \<open>len\<close> slots are as before.
\<close>

theorem C7_SerializeReducerFunc_slots:
  assumes "nat len * nbytes \<le> length s" and "nat len * nbytes \<le> length d"
    and "nat len * nbytes < 2 ^ 31"
    and "\<forall>i. int i < len \<longrightarrow>
      (\<exists>tsrc n tdst k. Load T (slot s nbytes i) = Some (tsrc, n) \<and> n \<le> nbytes \<and>
         Load T (slot d nbytes i) = Some (tdst, k) \<and> k \<le> nbytes \<and>
         length (Save T (Reduce_obj T tdst tsrc nbytes)) \<le> nbytes)"
  shows "\<exists>d'. SerializeReducerFunc T s d len \<lparr>type_size = nbytes\<rparr> =
        Inr \<lparr>src_buf = s, dst_buf = d'\<rparr> \<and>
      length d' = length d \<and>
      drop (nat len * nbytes) d' = drop (nat len * nbytes) d \<and>
      (\<forall>i. int i < len \<longrightarrow>
         (\<exists>tsrc n tdst k. Load T (slot s nbytes i) = Some (tsrc, n) \<and>
            Load T (slot d nbytes i) = Some (tdst, k) \<and>
            slot d' nbytes i =
              Save T (Reduce_obj T tdst tsrc nbytes)
              @ drop (length (Save T (Reduce_obj T tdst tsrc nbytes))) (slot d nbytes i)))"
proof -
  let ?m = "\<lparr>src_buf = s, dst_buf = d\<rparr>"
  have res: "\<exists>tsrc n tdst k. Load T (slot s nbytes i) = Some (tsrc, n) \<and>
      Load T (slot d nbytes i) = Some (tdst, k) \<and>
      slot_result T nbytes (slot s nbytes i) (slot d nbytes i) =
        Inr (Save T (Reduce_obj T tdst tsrc nbytes)
             @ drop (length (Save T (Reduce_obj T tdst tsrc nbytes))) (slot d nbytes i))"
    if i: "int i < len" for i
  proof -
    from assms(4) i obtain tsrc n tdst k where
      h: "Load T (slot s nbytes i) = Some (tsrc, n)" "n \<le> nbytes"
      "Load T (slot d nbytes i) = Some (tdst, k)" "k \<le> nbytes"
      "length (Save T (Reduce_obj T tdst tsrc nbytes)) \<le> nbytes"
      by blast
    have ls: "length (slot s nbytes i) = nbytes" "length (slot d nbytes i) = nbytes"
      using slot_in_bounds [OF i assms(1)] slot_in_bounds [OF i assms(2)]
      by (simp_all add: length_slot)
    from h ls have "slot_result T nbytes (slot s nbytes i) (slot d nbytes i) =
        Inr (Save T (Reduce_obj T tdst tsrc nbytes)
             @ drop (length (Save T (Reduce_obj T tdst tsrc nbytes))) (slot d nbytes i))"
      by (simp add: slot_result_Inr)
    with h(1,3) show ?thesis by blast
  qed
  then have ok: "\<forall>j. 0 \<le> j \<and> int j < len \<longrightarrow>
      (\<exists>r. slot_result T nbytes (slot (src_buf ?m) nbytes j) (slot (dst_buf ?m) nbytes j) = Inr r)"
    by fastforce
  from SRF_loop_inv [of len nbytes ?m 0 T] assms(1,2,3) ok
  obtain d' where d': "SerializeReducerFunc_loop T nbytes len 0 ?m = Inr (?m\<lparr>dst_buf := d'\<rparr>)"
    "length d' = length d"
    "drop (nat len * nbytes) d' = drop (nat len * nbytes) d"
    "\<forall>j. Inr (slot d' nbytes j) =
        (if int j < len then slot_result T nbytes (slot s nbytes j) (slot d nbytes j)
         else Inr (slot d nbytes j))"
    by auto
  have run: "SerializeReducerFunc T s d len \<lparr>type_size = nbytes\<rparr> =
      Inr \<lparr>src_buf = s, dst_buf = d'\<rparr>"
    using d'(1) by (simp add: SerializeReducerFunc_def TypeSize_def)
  have slots: "\<forall>i. int i < len \<longrightarrow>
         (\<exists>tsrc n tdst k. Load T (slot s nbytes i) = Some (tsrc, n) \<and>
            Load T (slot d nbytes i) = Some (tdst, k) \<and>
            slot d' nbytes i =
              Save T (Reduce_obj T tdst tsrc nbytes)
              @ drop (length (Save T (Reduce_obj T tdst tsrc nbytes))) (slot d nbytes i))"
  proof (intro allI impI)
    fix i assume i: "int i < len"
    from res [OF i] obtain tsrc n tdst k where
      h: "Load T (slot s nbytes i) = Some (tsrc, n)" "Load T (slot d nbytes i) = Some (tdst, k)"
      "slot_result T nbytes (slot s nbytes i) (slot d nbytes i) =
        Inr (Save T (Reduce_obj T tdst tsrc nbytes)
             @ drop (length (Save T (Reduce_obj T tdst tsrc nbytes))) (slot d nbytes i))"
      by blast
    from d'(4) i h(3) have "slot d' nbytes i =
        Save T (Reduce_obj T tdst tsrc nbytes)
        @ drop (length (Save T (Reduce_obj T tdst tsrc nbytes))) (slot d nbytes i)"
      by (metis sum.inject(2))
    with h(1,2) show "\<exists>tsrc n tdst k. Load T (slot s nbytes i) = Some (tsrc, n) \<and>
            Load T (slot d nbytes i) = Some (tdst, k) \<and>
            slot d' nbytes i =
              Save T (Reduce_obj T tdst tsrc nbytes)
              @ drop (length (Save T (Reduce_obj T tdst tsrc nbytes))) (slot d nbytes i)"
      by blast
  qed
  show ?thesis
    by (rule exI [of _ d']) (use run d'(2,3) slots in blast)
qed

lemma byte_object_simps:
  "Save byte_object x = [x]"
  "Load byte_object [] = None"
  "Load byte_object (b # rest) = Some (b, 1)"
  "Reduce_obj byte_object tdst tsrc n = tdst + tsrc"
  by (simp_all add: byte_object_def)

lemma slot_simps:
  "slot buf n 0 = take n buf"
  "slot buf n (Suc 0) = take n (drop n buf)"
  by (simp_all add: slot_def window_def)

lemma take_2_Cons: "take 2 (x # y # xs) = [x, y]"
  by (simp add: numeral_2_eq_2)

lemma drop_2_Cons: "drop 2 (x # y # xs) = xs"
  by (simp add: numeral_2_eq_2)

text \<open>
  An instance of C7: slots of 2 bytes, one slot reduced. The object is the first byte
  of its slot; \<open>src = {1, 0, 2, 0}\<close> and \<open>dst = {10, 9, 20, 8}\<close> give slot 0 of
  \<open>dst\<close> as \<open>{11, 9}\<close> and leave the rest.
\<close>

theorem C7_SerializeReducerFunc_slots_witness:
  "nat 1 * 2 \<le> length [1, 0, 2, 0 :: byte] \<and> nat 1 * 2 \<le> length [10, 9, 20, 8 :: byte] \<and>
   nat 1 * 2 < (2 :: nat) ^ 31 \<and>
   (\<exists>d'. SerializeReducerFunc byte_object [1, 0, 2, 0] [10, 9, 20, 8] 1 \<lparr>type_size = 2\<rparr> =
        Inr \<lparr>src_buf = [1, 0, 2, 0], dst_buf = d'\<rparr> \<and>
      length d' = 4 \<and> drop 2 d' = [20, 8] \<and> slot d' 2 0 = [11, 9])"
proof -
  have b: "nat 1 * 2 \<le> length [1, 0, 2, 0 :: byte]" "nat 1 * 2 \<le> length [10, 9, 20, 8 :: byte]"
    "nat 1 * 2 < (2 :: nat) ^ 31"
    by simp_all
  have h: "\<forall>i. int i < 1 \<longrightarrow>
      (\<exists>tsrc n tdst k. Load byte_object (slot [1, 0, 2, 0] 2 i) = Some (tsrc, n) \<and> n \<le> 2 \<and>
         Load byte_object (slot [10, 9, 20, 8] 2 i) = Some (tdst, k) \<and> k \<le> 2 \<and>
         length (Save byte_object (Reduce_obj byte_object tdst tsrc 2)) \<le> 2)"
    by (simp add: slot_simps take_2_Cons byte_object_simps)
  from C7_SerializeReducerFunc_slots [OF b h]
  obtain d' where d': "SerializeReducerFunc byte_object [1, 0, 2, 0] [10, 9, 20, 8] 1
        \<lparr>type_size = 2\<rparr> = Inr \<lparr>src_buf = [1, 0, 2, 0], dst_buf = d'\<rparr>"
    "length d' = length [10, 9, 20, 8 :: byte]"
    "drop (nat 1 * 2) d' = drop (nat 1 * 2) [10, 9, 20, 8]"
    "\<forall>i. int i < 1 \<longrightarrow>
         (\<exists>tsrc n tdst k. Load byte_object (slot [1, 0, 2, 0] 2 i) = Some (tsrc, n) \<and>
            Load byte_object (slot [10, 9, 20, 8] 2 i) = Some (tdst, k) \<and>
            slot d' 2 i =
              Save byte_object (Reduce_obj byte_object tdst tsrc 2)
              @ drop (length (Save byte_object (Reduce_obj byte_object tdst tsrc 2)))
                  (slot [10, 9, 20, 8] 2 i))"
    by blast
  from d'(4) have "slot d' 2 0 = [11, 9]"
    by (simp add: slot_simps take_2_Cons byte_object_simps)
  moreover from d'(3) have "drop 2 d' = [20, 8]" by (simp add: drop_2_Cons)
  ultimately show ?thesis using b d'(1,2) by simp
qed

section \<open>Facts about the serializing reducer\<close>

lemma length_resize_buffer: "length (resize z b (n * cnt)) = n * cnt"
  by (simp add: resize_def)

lemma Run_char:
  fixes T :: "'a SerializableObject" and st :: "('a, 'u) sr_mem"
  assumes st1: "st1 = (case prepare of None \<Rightarrow> st | Some p \<Rightarrow> p st)"
    and cnt: "cnt \<le> length (sendrecvobj st1)"
    and buf: "cnt * n \<le> length B0"
    and fit: "\<forall>i<cnt. length (Save T (sendrecvobj st1 ! i)) \<le> n"
    and bound: "cnt * n < 2 ^ 64"
  shows "\<exists>B1. Run T \<lparr>max_nbyte = n, count = cnt, prepare_fun = prepare\<rparr> (B0, st) = Inr (B1, st1) \<and>
      length B1 = length B0 \<and>
      (\<forall>i<cnt. slot B1 n i =
         Save T (sendrecvobj st1 ! i)
         @ drop (length (Save T (sendrecvobj st1 ! i))) (slot B0 n i))"
proof -
  let ?c = "\<lparr>max_nbyte = n, count = cnt, prepare_fun = prepare\<rparr>"
  have pre: "(case prepare_fun ?c of None \<Rightarrow> (B0, st) | Some p \<Rightarrow> (fst (B0, st), p (snd (B0, st))))
      = (B0, st1)"
    using st1 by (simp split: option.splits)
  from Run_loop_inv [of ?c "(B0, st1)" 0 T] cnt buf fit bound
  obtain b' where b': "Run_loop T ?c 0 (B0, st1) = Inr (b', st1)" "length b' = length B0"
    "\<forall>j. slot b' n j =
        (if j < cnt
         then Save T (sendrecvobj st1 ! j)
              @ drop (length (Save T (sendrecvobj st1 ! j))) (slot B0 n j)
         else slot B0 n j)"
    by auto
  have "Run T ?c (B0, st) = Inr (b', st1)"
    unfolding Run_def pre by (rule b'(1))
  with b'(2,3) show ?thesis by (intro exI [of _ b']) simp
qed

lemma Allreduce_Fresh:
  "SerializeReducer_Allreduce T (Fresh peers) n cnt prepare (buffer, st) =
     (case Run T \<lparr>max_nbyte = n, count = cnt, prepare_fun = prepare\<rparr>
             (resize 0 buffer (size_t_mul n cnt), st) of
        Inl e \<Rightarrow> Inl e
      | Inr m1 \<Rightarrow>
          (case reduce_peers (SerializeReducerFunc T) cnt \<lparr>type_size = n\<rparr> peers (fst m1) of
             Inl e \<Rightarrow> Inl e
           | Inr B2 \<Rightarrow> Load_loop T n cnt 0 (B2, snd m1)))"
  by (simp add: SerializeReducer_Allreduce_def ReduceHandle_Allreduce_def engine_collective_def
      Let_def split: sum.splits)

lemma Allreduce_Replay:
  "SerializeReducer_Allreduce T (Replay cached) n cnt prepare (buffer, st) =
     Load_loop T n cnt 0 (cached, st)"
  by (simp add: SerializeReducer_Allreduce_def ReduceHandle_Allreduce_def engine_collective_def
      Let_def)

text \<open>
  Where \<open>max_nbyte * count\<close> wraps around, the buffer is too short for the slots:
  with \<open>max_nbyte = 2 ^ 63 + 2\<close> and \<open>count = 2\<close> it has 4 bytes, and the closure
  stops at the first object with an access out of bounds.
\<close>

lemma Run_wrapped_product:
  "size_t_mul (2 ^ 63 + 2) 2 = 4 \<and>
   Run byte_object \<lparr>max_nbyte = 2 ^ 63 + 2, count = 2, prepare_fun = None\<rparr>
     (resize 0 [] (size_t_mul (2 ^ 63 + 2) 2), \<lparr>sendrecvobj = [5, 7], user = ()\<rparr>) =
     Inl OutOfBounds"
proof -
  have w: "size_t_mul (2 ^ 63 + 2) 2 = 4" by (simp add: size_t_mul_def)
  have l: "length (resize (0 :: byte) [] 4) = 4" by (simp add: resize_def)
  let ?c = "\<lparr>max_nbyte = 2 ^ 63 + 2, count = 2,
    prepare_fun = (None :: ((byte, unit) sr_mem \<Rightarrow> (byte, unit) sr_mem) option)\<rparr>"
  have "Run_loop byte_object ?c 0 (resize 0 [] 4, \<lparr>sendrecvobj = [5, 7], user = ()\<rparr>) =
      Inl OutOfBounds"
    by (subst Run_loop.simps) (simp add: l size_t_mul_def)
  with w show ?thesis by (simp add: Run_def)
qed

text \<open>
  C1. \<open>SerializeReducer<DType>::Allreduce\<close> resizes \<open>buffer_\<close> to exactly
  \<open>max_nbyte * count\<close> bytes, the product being the one of \<open>size_t\<close>. When that
  product does not wrap around: when the engine invokes the closure, the caller's
  memory is first transformed by \<open>prepare_fun\<close>, once (not at all for a null
  \<open>prepare_fun\<close>), and then object \<open>i\<close> of the transformed memory is saved at the
  start of slot \<open>i\<close> of the buffer, for every \<open>i < count\<close>; that buffer is what the
  engine reduces, and the result is decoded. When the engine replays a cached result,
  the call is the decoding of the cached buffer into the caller's memory as it was:
  neither \<open>prepare_fun\<close> nor \<open>Save\<close> takes part. The decoding replaces object \<open>i\<close>
  by what \<open>Load\<close> reads from slot \<open>i\<close>, for every \<open>i < count\<close>, and changes nothing
  else.
\<close>

theorem C1_SerializeReducer_Allreduce:
  fixes T :: "'a SerializableObject" and st st1 stc :: "('a, 'u) sr_mem"
  assumes "st1 = (case prepare of None \<Rightarrow> st | Some p \<Rightarrow> p st)"
  shows
  "length (resize 0 buffer (size_t_mul n cnt)) = (n * cnt) mod 2 ^ 64 \<and>
   (n * cnt < 2 ^ 64 \<and> cnt \<le> length (sendrecvobj st1) \<and>
    (\<forall>i<cnt. length (Save T (sendrecvobj st1 ! i)) \<le> n) \<longrightarrow>
      (\<exists>B1. Run T \<lparr>max_nbyte = n, count = cnt, prepare_fun = prepare\<rparr>
               (resize 0 buffer (size_t_mul n cnt), st) = Inr (B1, st1) \<and>
         length B1 = n * cnt \<and>
         (\<forall>i<cnt. slot B1 n i =
            Save T (sendrecvobj st1 ! i)
            @ drop (length (Save T (sendrecvobj st1 ! i))) (slot (resize 0 buffer (n * cnt)) n i)) \<and>
         SerializeReducer_Allreduce T (Fresh peers) n cnt prepare (buffer, st) =
           (case reduce_peers (SerializeReducerFunc T) cnt \<lparr>type_size = n\<rparr> peers B1 of
              Inl e \<Rightarrow> Inl e
            | Inr B2 \<Rightarrow> Load_loop T n cnt 0 (B2, st1)))) \<and>
   SerializeReducer_Allreduce T (Replay cached) n cnt prepare (buffer, st) =
     Load_loop T n cnt 0 (cached, st) \<and>
   (n * cnt < 2 ^ 64 \<and> cnt \<le> length (sendrecvobj stc) \<and> cnt * n \<le> length Bc \<and>
    (\<forall>i<cnt. \<exists>x k. Load T (slot Bc n i) = Some (x, k) \<and> k \<le> n) \<longrightarrow>
      (\<exists>objs'. Load_loop T n cnt 0 (Bc, stc) = Inr (Bc, stc\<lparr>sendrecvobj := objs'\<rparr>) \<and>
         length objs' = length (sendrecvobj stc) \<and>
         (\<forall>i<cnt. Some (objs' ! i) = map_option fst (Load T (slot Bc n i))) \<and>
         (\<forall>i. cnt \<le> i \<and> i < length objs' \<longrightarrow> objs' ! i = sendrecvobj stc ! i)))"
proof -
  have a: "length (resize 0 buffer (size_t_mul n cnt)) = (n * cnt) mod 2 ^ 64"
    by (simp add: length_resize size_t_mul_def)
  have b: "n * cnt < 2 ^ 64 \<and> cnt \<le> length (sendrecvobj st1) \<and>
      (\<forall>i<cnt. length (Save T (sendrecvobj st1 ! i)) \<le> n) \<longrightarrow>
      (\<exists>B1. Run T \<lparr>max_nbyte = n, count = cnt, prepare_fun = prepare\<rparr>
               (resize 0 buffer (size_t_mul n cnt), st) = Inr (B1, st1) \<and>
         length B1 = n * cnt \<and>
         (\<forall>i<cnt. slot B1 n i =
            Save T (sendrecvobj st1 ! i)
            @ drop (length (Save T (sendrecvobj st1 ! i))) (slot (resize 0 buffer (n * cnt)) n i)) \<and>
         SerializeReducer_Allreduce T (Fresh peers) n cnt prepare (buffer, st) =
           (case reduce_peers (SerializeReducerFunc T) cnt \<lparr>type_size = n\<rparr> peers B1 of
              Inl e \<Rightarrow> Inl e
            | Inr B2 \<Rightarrow> Load_loop T n cnt 0 (B2, st1)))"
  proof
    assume h: "n * cnt < 2 ^ 64 \<and> cnt \<le> length (sendrecvobj st1) \<and>
      (\<forall>i<cnt. length (Save T (sendrecvobj st1 ! i)) \<le> n)"
    then have sz: "size_t_mul n cnt = n * cnt" by (simp add: size_t_mul_exact)
    let ?B0 = "resize 0 buffer (n * cnt)"
    have l0: "length ?B0 = n * cnt" by (rule length_resize_buffer)
    then have le: "cnt * n \<le> length ?B0" by (simp add: mult.commute)
    from h have bd: "cnt * n < 2 ^ 64" by (simp add: mult.commute)
    from h have c: "cnt \<le> length (sendrecvobj st1)"
      and f: "\<forall>i<cnt. length (Save T (sendrecvobj st1 ! i)) \<le> n"
      by blast+
    from Run_char [OF assms c le f bd]
    obtain B1 where B1: "Run T \<lparr>max_nbyte = n, count = cnt, prepare_fun = prepare\<rparr> (?B0, st)
        = Inr (B1, st1)"
      "length B1 = length ?B0"
      "\<forall>i<cnt. slot B1 n i =
         Save T (sendrecvobj st1 ! i)
         @ drop (length (Save T (sendrecvobj st1 ! i))) (slot ?B0 n i)"
      by blast
    have run: "SerializeReducer_Allreduce T (Fresh peers) n cnt prepare (buffer, st) =
           (case reduce_peers (SerializeReducerFunc T) cnt \<lparr>type_size = n\<rparr> peers B1 of
              Inl e \<Rightarrow> Inl e
            | Inr B2 \<Rightarrow> Load_loop T n cnt 0 (B2, st1))"
      by (simp add: Allreduce_Fresh sz B1(1) split: sum.splits)
    have lb: "length B1 = n * cnt" using B1(2) l0 by simp
    show "\<exists>B1. Run T \<lparr>max_nbyte = n, count = cnt, prepare_fun = prepare\<rparr>
               (resize 0 buffer (size_t_mul n cnt), st) = Inr (B1, st1) \<and>
         length B1 = n * cnt \<and>
         (\<forall>i<cnt. slot B1 n i =
            Save T (sendrecvobj st1 ! i)
            @ drop (length (Save T (sendrecvobj st1 ! i))) (slot ?B0 n i)) \<and>
         SerializeReducer_Allreduce T (Fresh peers) n cnt prepare (buffer, st) =
           (case reduce_peers (SerializeReducerFunc T) cnt \<lparr>type_size = n\<rparr> peers B1 of
              Inl e \<Rightarrow> Inl e
            | Inr B2 \<Rightarrow> Load_loop T n cnt 0 (B2, st1))"
      unfolding sz by (rule exI [of _ B1]) (use B1(1,3) lb run in blast)
  qed
  have c: "SerializeReducer_Allreduce T (Replay cached) n cnt prepare (buffer, st) =
     Load_loop T n cnt 0 (cached, st)"
    by (rule Allreduce_Replay)
  have d: "n * cnt < 2 ^ 64 \<and> cnt \<le> length (sendrecvobj stc) \<and> cnt * n \<le> length Bc \<and>
    (\<forall>i<cnt. \<exists>x k. Load T (slot Bc n i) = Some (x, k) \<and> k \<le> n) \<longrightarrow>
      (\<exists>objs'. Load_loop T n cnt 0 (Bc, stc) = Inr (Bc, stc\<lparr>sendrecvobj := objs'\<rparr>) \<and>
         length objs' = length (sendrecvobj stc) \<and>
         (\<forall>i<cnt. Some (objs' ! i) = map_option fst (Load T (slot Bc n i))) \<and>
         (\<forall>i. cnt \<le> i \<and> i < length objs' \<longrightarrow> objs' ! i = sendrecvobj stc ! i))"
  proof
    assume h: "n * cnt < 2 ^ 64 \<and> cnt \<le> length (sendrecvobj stc) \<and> cnt * n \<le> length Bc \<and>
      (\<forall>i<cnt. \<exists>x k. Load T (slot Bc n i) = Some (x, k) \<and> k \<le> n)"
    then have bd: "cnt * n < 2 ^ 64" by (simp add: mult.commute)
    from h have h1: "cnt \<le> length (sendrecvobj (snd (Bc, stc)))"
      and h2: "cnt * n \<le> length (fst (Bc, stc))"
      and h3: "\<forall>j. 0 \<le> j \<and> j < cnt \<longrightarrow>
          (\<exists>x k. Load T (slot (fst (Bc, stc)) n j) = Some (x, k) \<and> k \<le> n)"
      by simp_all
    from Load_loop_inv [OF h1 h2 h3 bd]
    obtain objs' where o: "Load_loop T n cnt 0 (Bc, stc) = Inr (Bc, stc\<lparr>sendrecvobj := objs'\<rparr>)"
      "length objs' = length (sendrecvobj stc)"
      "\<forall>j < length objs'. Some (objs' ! j) =
        (if j < cnt then map_option fst (Load T (slot Bc n j)) else Some (sendrecvobj stc ! j))"
      by auto
    from o(2,3) h have "\<forall>i<cnt. Some (objs' ! i) = map_option fst (Load T (slot Bc n i))"
      by auto
    moreover from o(3) have "\<forall>i. cnt \<le> i \<and> i < length objs' \<longrightarrow> objs' ! i = sendrecvobj stc ! i"
      by auto
    ultimately show "\<exists>objs'. Load_loop T n cnt 0 (Bc, stc) = Inr (Bc, stc\<lparr>sendrecvobj := objs'\<rparr>) \<and>
         length objs' = length (sendrecvobj stc) \<and>
         (\<forall>i<cnt. Some (objs' ! i) = map_option fst (Load T (slot Bc n i))) \<and>
         (\<forall>i. cnt \<le> i \<and> i < length objs' \<longrightarrow> objs' ! i = sendrecvobj stc ! i)"
      using o(1,2) by (intro exI [of _ objs']) simp
  qed
  from a b c d show ?thesis by blast
qed

text \<open>
  An instance of C1: two one-byte objects in slots of 2 bytes. The prepare function
  sets the objects to 5 and 7 and counts its calls in the user memory; the closure
  leaves the count at 1 and the buffer \<open>{5, 0, 7, 0}\<close>. On a replay of the cached
  buffer \<open>{9, 0, 8, 0}\<close> the call is the decoding of that buffer alone.
\<close>

theorem C1_SerializeReducer_Allreduce_witness:
  "(2 :: nat) * 2 < 2 ^ 64 \<and>
   (\<exists>B1. Run byte_object
       \<lparr>max_nbyte = 2, count = 2,
        prepare_fun = Some (\<lambda>s. s\<lparr>sendrecvobj := [5, 7], user := Suc (user s)\<rparr>)\<rparr>
       (resize 0 [] (size_t_mul 2 2), \<lparr>sendrecvobj = [0, 0], user = 0 :: nat\<rparr>) =
       Inr (B1, \<lparr>sendrecvobj = [5, 7], user = Suc 0\<rparr>) \<and>
     length B1 = 4 \<and> slot B1 2 0 = [5, 0] \<and> slot B1 2 (Suc 0) = [7, 0]) \<and>
   SerializeReducer_Allreduce byte_object (Replay [9, 0, 8, 0]) 2 2
       (Some (\<lambda>s. s\<lparr>sendrecvobj := [5, 7], user := Suc (user s)\<rparr>))
       ([], \<lparr>sendrecvobj = [0, 0], user = 0 :: nat\<rparr>) =
     Load_loop byte_object 2 2 0 ([9, 0, 8, 0], \<lparr>sendrecvobj = [0, 0], user = 0 :: nat\<rparr>)"
proof -
  let ?p = "\<lambda>s :: (byte, nat) sr_mem. s\<lparr>sendrecvobj := [5, 7], user := Suc (user s)\<rparr>"
  let ?st = "\<lparr>sendrecvobj = [0, 0 :: byte], user = 0 :: nat\<rparr>"
  let ?st1 = "\<lparr>sendrecvobj = [5, 7 :: byte], user = Suc 0\<rparr>"
  have e: "?st1 = (case Some ?p of None \<Rightarrow> ?st | Some p \<Rightarrow> p ?st)" by simp
  note t = C1_SerializeReducer_Allreduce [OF e, where T = byte_object and n = 2 and cnt = 2
      and buffer = "[]" and cached = "[9, 0, 8, 0]" and peers = "[]" and Bc = "[]"
      and stc = ?st]
  have bd: "(2 :: nat) * 2 < 2 ^ 64" by simp
  have h: "(2 :: nat) * 2 < 2 ^ 64 \<and> 2 \<le> length (sendrecvobj ?st1) \<and>
      (\<forall>i<2. length (Save byte_object (sendrecvobj ?st1 ! i)) \<le> 2)"
    by (simp add: byte_object_simps)
  from t h obtain B1 where B1:
    "Run byte_object \<lparr>max_nbyte = 2, count = 2, prepare_fun = Some ?p\<rparr>
       (resize 0 [] (size_t_mul 2 2), ?st) = Inr (B1, ?st1)"
    "length B1 = 2 * 2"
    "\<forall>i<2. slot B1 2 i =
       Save byte_object (sendrecvobj ?st1 ! i)
       @ drop (length (Save byte_object (sendrecvobj ?st1 ! i))) (slot (resize 0 [] (2 * 2)) 2 i)"
    by blast
  have "(0 :: nat) < 2" by simp
  with B1(3) have "slot B1 2 0 =
       Save byte_object (sendrecvobj ?st1 ! 0)
       @ drop (length (Save byte_object (sendrecvobj ?st1 ! 0)))
           (slot (resize 0 [] (2 * 2)) 2 0)"
    by blast
  then have s0: "slot B1 2 0 = [5, 0]"
    by (simp add: byte_object_simps slot_def window_def resize_def)
  have "Suc 0 < 2" by simp
  with B1(3) have "slot B1 2 (Suc 0) =
       Save byte_object (sendrecvobj ?st1 ! Suc 0)
       @ drop (length (Save byte_object (sendrecvobj ?st1 ! Suc 0)))
           (slot (resize 0 [] (2 * 2)) 2 (Suc 0))"
    by blast
  then have s1: "slot B1 2 (Suc 0) = [7, 0]"
    by (simp add: byte_object_simps slot_def window_def resize_def)
  from t have r: "SerializeReducer_Allreduce byte_object (Replay [9, 0, 8, 0]) 2 2 (Some ?p)
       ([], ?st) = Load_loop byte_object 2 2 0 ([9, 0, 8, 0], ?st)"
    by blast
  from bd B1(1,2) s0 s1 r show ?thesis by simp
qed

text \<open>
  C8. In a group of one participant, as the spec describes the engine, the typed
  \<open>Allreduce\<close> returns the caller's memory as the prepare function leaves it, and
  unchanged when there is none. For the serializing reducer, when
  \<open>max_nbyte * count\<close> does not wrap around, every encoding fits into \<open>max_nbyte\<close>
  bytes, and decoding a slot that holds the encoding of an object gives that object
  back, \<open>SerializeReducer::Allreduce\<close> returns with the caller's memory as the prepare
  function leaves it: every object of \<open>sendrecvobj\<close> is unchanged.
\<close>

theorem C8_single_participant_identity:
  fixes T :: "'a SerializableObject" and st st1 :: "('a, 'u) sr_mem"
    and OP :: "'b OP" and m :: "('b, 'r) mem"
  assumes "st1 = (case prepare of None \<Rightarrow> st | Some q \<Rightarrow> q st)"
    and "n * cnt < 2 ^ 64"
    and "cnt \<le> length (sendrecvobj st1)"
    and "\<forall>i<cnt. length (Save T (sendrecvobj st1 ! i)) \<le> n"
    and "\<forall>i<cnt. \<exists>k. k \<le> n \<and>
      Load T (Save T (sendrecvobj st1 ! i)
              @ drop (length (Save T (sendrecvobj st1 ! i))) (slot (resize 0 buffer (n * cnt)) n i))
        = Some (sendrecvobj st1 ! i, k)"
  shows
  "Allreduce (engine_Allreduce (Fresh [])) OP DType k None m = Inr m \<and>
   Allreduce (engine_Allreduce (Fresh [])) OP DType k (Some p) m = p m \<and>
   (\<exists>B. SerializeReducer_Allreduce T (Fresh []) n cnt prepare (buffer, st) = Inr (B, st1) \<and>
      length B = n * cnt)"
proof -
  have a: "Allreduce (engine_Allreduce (Fresh [])) OP DType k None m = Inr m"
    by (simp add: Allreduce_def engine_Allreduce_def engine_collective_def)
  have b: "Allreduce (engine_Allreduce (Fresh [])) OP DType k (Some p) m = p m"
    by (cases "p m")
       (simp_all add: Allreduce_def engine_Allreduce_def engine_collective_def)
  let ?B0 = "resize 0 buffer (n * cnt)"
  have sz: "size_t_mul n cnt = n * cnt" using assms(2) by (rule size_t_mul_exact)
  have l0: "length ?B0 = n * cnt" by (rule length_resize_buffer)
  then have le: "cnt * n \<le> length ?B0" by (simp add: mult.commute)
  from assms(2) have bd: "cnt * n < 2 ^ 64" by (simp add: mult.commute)
  from Run_char [OF assms(1) assms(3) le assms(4) bd]
  obtain B1 where B1: "Run T \<lparr>max_nbyte = n, count = cnt, prepare_fun = prepare\<rparr> (?B0, st)
        = Inr (B1, st1)"
    "length B1 = length ?B0"
    "\<forall>i<cnt. slot B1 n i =
       Save T (sendrecvobj st1 ! i)
       @ drop (length (Save T (sendrecvobj st1 ! i))) (slot ?B0 n i)"
    by blast
  have run: "SerializeReducer_Allreduce T (Fresh []) n cnt prepare (buffer, st) =
      Load_loop T n cnt 0 (B1, st1)"
    by (simp add: Allreduce_Fresh sz B1(1))
  have ld: "\<exists>j. Load T (slot B1 n i) = Some (sendrecvobj st1 ! i, j) \<and> j \<le> n" if i: "i < cnt" for i
    using assms(5) B1(3) i by auto
  then have ok: "\<forall>i. 0 \<le> i \<and> i < cnt \<longrightarrow>
      (\<exists>x j. Load T (slot (fst (B1, st1)) n i) = Some (x, j) \<and> j \<le> n)"
    by fastforce
  have h1: "cnt \<le> length (sendrecvobj (snd (B1, st1)))" using assms(3) by simp
  have h2: "cnt * n \<le> length (fst (B1, st1))" using le B1(2) by simp
  from Load_loop_inv [OF h1 h2 ok bd]
  obtain objs' where o: "Load_loop T n cnt 0 (B1, st1) = Inr (B1, st1\<lparr>sendrecvobj := objs'\<rparr>)"
    "length objs' = length (sendrecvobj st1)"
    "\<forall>i < length objs'. Some (objs' ! i) =
        (if i < cnt then map_option fst (Load T (slot B1 n i)) else Some (sendrecvobj st1 ! i))"
    by auto
  have "objs' = sendrecvobj st1"
  proof (rule nth_equalityI)
    show "length objs' = length (sendrecvobj st1)" by (rule o(2))
  next
    fix i assume i: "i < length objs'"
    show "objs' ! i = sendrecvobj st1 ! i"
    proof (cases "i < cnt")
      case True
      from ld [OF True] obtain j where "Load T (slot B1 n i) = Some (sendrecvobj st1 ! i, j)"
        by blast
      moreover from o(3) i have "Some (objs' ! i) =
          (if i < cnt then map_option fst (Load T (slot B1 n i)) else Some (sendrecvobj st1 ! i))"
        by blast
      ultimately show ?thesis using True by simp
    next
      case False
      moreover from o(3) i have "Some (objs' ! i) =
          (if i < cnt then map_option fst (Load T (slot B1 n i)) else Some (sendrecvobj st1 ! i))"
        by blast
      ultimately show ?thesis by simp
    qed
  qed
  with o(1) run have "SerializeReducer_Allreduce T (Fresh []) n cnt prepare (buffer, st) =
      Inr (B1, st1)"
    by simp
  with B1(2) l0 have c: "\<exists>B. SerializeReducer_Allreduce T (Fresh []) n cnt prepare (buffer, st) =
      Inr (B, st1) \<and> length B = n * cnt"
    by (intro exI [of _ B1]) simp
  from a b c show ?thesis by blast
qed

text \<open>
  An instance of C8: the one-byte objects 5 and 7 in slots of 2 bytes, no prepare
  function, one participant. The slots hold \<open>{5, 0}\<close> and \<open>{7, 0}\<close> after the
  encoding, from which 5 and 7 are decoded.
\<close>

theorem C8_single_participant_identity_witness:
  "(2 :: nat) * 2 < 2 ^ 64 \<and> (2 :: nat) \<le> length [5, 7 :: byte] \<and>
   (\<exists>B. SerializeReducer_Allreduce byte_object (Fresh []) 2 2 None
          ([], \<lparr>sendrecvobj = [5, 7], user = ()\<rparr>) =
        Inr (B, \<lparr>sendrecvobj = [5, 7], user = ()\<rparr>) \<and> length B = 4) \<and>
   Allreduce (engine_Allreduce (Fresh [])) (Sum_op int_plus) T_int 1 None
       ([1 :: 32 word], ()) = Inr ([1], ())"
proof -
  let ?st = "\<lparr>sendrecvobj = [5, 7 :: byte], user = ()\<rparr>"
  have e: "?st = (case None of None \<Rightarrow> ?st | Some q \<Rightarrow> q ?st)" by simp
  have bd: "(2 :: nat) * 2 < 2 ^ 64" by simp
  have c: "2 \<le> length (sendrecvobj ?st)" by simp
  have f: "\<forall>i<2. length (Save byte_object (sendrecvobj ?st ! i)) \<le> 2"
    by (simp add: byte_object_simps)
  have rt: "\<forall>i<2. \<exists>k. k \<le> 2 \<and>
      Load byte_object (Save byte_object (sendrecvobj ?st ! i)
              @ drop (length (Save byte_object (sendrecvobj ?st ! i)))
                  (slot (resize 0 [] (2 * 2)) 2 i))
        = Some (sendrecvobj ?st ! i, k)"
    by (simp add: byte_object_simps)
  from C8_single_participant_identity [OF e bd c f rt, where
      OP = "Sum_op int_plus" and DType = T_int and k = 1 and m = "([1 :: 32 word], ())"
      and p = Inr]
  show ?thesis by simp
qed

end
